theory Spec2Isabelle
  imports Complex_Main "HOL-Library.Product_Lexorder"
begin

section \<open>Errors and pixel buffers\<close>

text \<open>
  The Python exceptions that the modelled routines of \<^verbatim>\<open>eve.py\<close> can raise.
\<close>

datatype error = IndexError | ValueError | ZeroDivisionError

text \<open>
  An EVE image is a numpy array indexed \<^verbatim>\<open>im[line, pixel, channel]\<close>.  The record keeps
  the three extents (\<^verbatim>\<open>im.shape\<close>) and the samples as a store from indices to values;
  only the entries inside the extents belong to the array.
\<close>

record 'a image =
  shape_y :: nat
  shape_x :: nat
  shape_c :: nat
  pix :: "nat \<Rightarrow> nat \<Rightarrow> nat \<Rightarrow> 'a"

text \<open>\<^verbatim>\<open>im[y,x] = v\<close> with a scalar \<^verbatim>\<open>v\<close>: every channel of the pixel is set.\<close>

definition set_pixel :: "'a image \<Rightarrow> nat \<Rightarrow> nat \<Rightarrow> 'a \<Rightarrow> 'a image" where
  "set_pixel im y x v = im\<lparr>pix := (\<lambda>r c k. if r = y \<and> c = x then v else pix im r c k)\<rparr>"

text \<open>\<^verbatim>\<open>im[y,x] = \<dots>\<close> with one value per channel.\<close>

definition set_pixel_vec :: "'a image \<Rightarrow> nat \<Rightarrow> nat \<Rightarrow> (nat \<Rightarrow> 'a) \<Rightarrow> 'a image" where
  "set_pixel_vec im y x f = im\<lparr>pix := (\<lambda>r c k. if r = y \<and> c = x then f k else pix im r c k)\<rparr>"

text \<open>\<^verbatim>\<open>im[y,x].sum()\<close>: the sum of the channel values of one pixel.\<close>

definition pixel_sum :: "('a::comm_monoid_add) image \<Rightarrow> nat \<Rightarrow> nat \<Rightarrow> 'a" where
  "pixel_sum im y x = sum_list (map (pix im y x) [0..<shape_c im])"

text \<open>
  A loop body that may raise: the fold stops at the first error, as the exception would.
\<close>

primrec fold_err :: "('s \<Rightarrow> 'a \<Rightarrow> error + 's) \<Rightarrow> 's \<Rightarrow> 'a list \<Rightarrow> error + 's" where
  "fold_err f s [] = Inr s"
| "fold_err f s (a # as) = (case f s a of Inl e \<Rightarrow> Inl e | Inr s' \<Rightarrow> fold_err f s' as)"

text \<open>Python's \<^verbatim>\<open>int\<close> of a float truncates towards zero.\<close>

definition py_int :: "real \<Rightarrow> int" where
  "py_int r = (if 0 \<le> r then \<lfloor>r\<rfloor> else \<lceil>r\<rceil>)"

text \<open>
  An assignment \<^verbatim>\<open>im[y,x] = v\<close> stores \<^verbatim>\<open>v\<close> converted to the element type of the array.
  An array whose element type holds the value keeps it unchanged (floats are modelled as
  the numbers themselves); an integer array, such as one made with
  \<^verbatim>\<open>type=numpy.int32\<close>, truncates a float towards zero (a value beyond the range of
  the integer type is not modelled).  The routines that store the fill value take the
  conversion of their buffer as the first argument.
\<close>

definition store_exact :: "'a \<Rightarrow> 'a" where
  "store_exact v = v"


section \<open>Peak detection\<close>

text \<open>
  \<^verbatim>\<open>peaks.sort (reverse=True)\<close>: Python reverses the list, sorts it stably in ascending
  order and reverses the result.  The elements are the lists \<^verbatim>\<open>[value, y, x]\<close>, compared
  lexicographically.
\<close>

definition py_sort_reverse :: "('a::linorder) list \<Rightarrow> 'a list" where
  "py_sort_reverse xs = rev (sort (rev xs))"

definition is_peak :: "('a::linorder) image \<Rightarrow> 'a \<Rightarrow> nat \<Rightarrow> nat \<Rightarrow> bool" where
  "is_peak im threshold y x \<longleftrightarrow>
     pix im y x 0 > pix im (y - 1) (x - 1) 0 \<and>
     pix im y x 0 > pix im (y - 1) x 0 \<and>
     pix im y x 0 > pix im (y - 1) (x + 1) 0 \<and>
     pix im y x 0 > pix im y (x - 1) 0 \<and>
     pix im y x 0 > pix im y (x + 1) 0 \<and>
     pix im y x 0 > pix im (y + 1) (x - 1) 0 \<and>
     pix im y x 0 > pix im (y + 1) x 0 \<and>
     pix im y x 0 > pix im (y + 1) (x + 1) 0 \<and>
     pix im y x 0 > threshold"

text \<open>
  The two nested \<^verbatim>\<open>xrange\<close> loops of \<^verbatim>\<open>find_peaks\<close>, collecting the peaks in raster order.
\<close>

definition peak_scan :: "('a::linorder) image \<Rightarrow> 'a \<Rightarrow> ('a \<times> nat \<times> nat) list" where
  "peak_scan im threshold =
     concat (map (\<lambda>y. concat (map (\<lambda>x. if is_peak im threshold y x
                                         then [(pix im y x 0, y, x)] else [])
                                   [1..<shape_x im - 1]))
                 [1..<shape_y im - 1])"

text \<open>
  Reading channel 0 of an array with no channel raises \<^verbatim>\<open>IndexError\<close>; this happens at
  the first pixel visited, so only when both loops are entered.
\<close>

definition find_peaks :: "('a::linorder) image \<Rightarrow> 'a \<Rightarrow> error + ('a \<times> nat \<times> nat) list" where
  "find_peaks im threshold =
     (if shape_c im = 0 \<and> 3 \<le> shape_y im \<and> 3 \<le> shape_x im then Inl IndexError
      else Inr (py_sort_reverse (peak_scan im threshold)))"

text \<open>
  \<^verbatim>\<open>high_peaks\<close> reads \<^verbatim>\<open>peaks[0][0]\<close> first, then counts the leading peaks that are not
  below the threshold and returns that prefix.
\<close>

fun high_peaks_count :: "real \<Rightarrow> (real \<times> nat \<times> nat) list \<Rightarrow> nat" where
  "high_peaks_count threshold [] = 0"
| "high_peaks_count threshold ((ht, y, x) # peaks) =
     (if ht < threshold then 0 else Suc (high_peaks_count threshold peaks))"

definition high_peaks :: "(real \<times> nat \<times> nat) list \<Rightarrow> real \<Rightarrow> error + (real \<times> nat \<times> nat) list" where
  "high_peaks peaks factor =
     (case peaks of
        [] \<Rightarrow> Inl IndexError
      | p # _ \<Rightarrow> (let threshold = fst p * factor
                  in Inr (take (high_peaks_count threshold peaks) peaks)))"


section \<open>Flood fill\<close>

text \<open>
  One candidate neighbour \<^verbatim>\<open>(t, s)\<close> of an edge pixel: it is coloured and appended to the
  new edge list when it lies inside the image and its channel sum is within
  \<^verbatim>\<open>threshold\<close> of the seed's original channel sum \<^verbatim>\<open>vc\<close>.  The pixel then holds
  \<^verbatim>\<open>v\<close> as converted by the buffer, \<open>conv v\<close>.
\<close>

definition fill_neighbour ::
  "('a \<Rightarrow> 'a) \<Rightarrow> ('a::linordered_idom) \<Rightarrow> 'a \<Rightarrow> 'a \<Rightarrow> 'a image \<times> (int \<times> int) list \<Rightarrow> int \<times> int
     \<Rightarrow> 'a image \<times> (int \<times> int) list" where
  "fill_neighbour conv vc v threshold st ts =
     (if snd ts \<ge> 0 \<and> snd ts < int (shape_x (fst st)) \<and>
         fst ts \<ge> 0 \<and> fst ts < int (shape_y (fst st)) \<and>
         \<bar>pixel_sum (fst st) (nat (fst ts)) (nat (snd ts)) - vc\<bar> < threshold
      then (set_pixel (fst st) (nat (fst ts)) (nat (snd ts)) (conv v), snd st @ [ts])
      else st)"

text \<open>The inner \<^verbatim>\<open>for (t, s) in ((y, x+1), (y, x-1), (y+1, x), (y-1, x))\<close>.\<close>

definition fill_pixel ::
  "('a \<Rightarrow> 'a) \<Rightarrow> ('a::linordered_idom) \<Rightarrow> 'a \<Rightarrow> 'a \<Rightarrow> 'a image \<times> (int \<times> int) list \<Rightarrow> int \<times> int
     \<Rightarrow> 'a image \<times> (int \<times> int) list" where
  "fill_pixel conv vc v threshold st yx =
     foldl (fill_neighbour conv vc v threshold) st
       [(fst yx, snd yx + 1), (fst yx, snd yx - 1), (fst yx + 1, snd yx), (fst yx - 1, snd yx)]"

text \<open>One pass of \<^verbatim>\<open>for (y, x) in edge\<close>, starting from an empty \<^verbatim>\<open>newedge\<close>.\<close>

definition fill_sweep ::
  "('a \<Rightarrow> 'a) \<Rightarrow> ('a::linordered_idom) \<Rightarrow> 'a \<Rightarrow> 'a \<Rightarrow> 'a image \<Rightarrow> (int \<times> int) list
     \<Rightarrow> 'a image \<times> (int \<times> int) list" where
  "fill_sweep conv vc v threshold im edge =
     foldl (fill_pixel conv vc v threshold) (im, []) edge"

text \<open>
  \<^verbatim>\<open>while edge:\<close> may run forever, so the loop is a partial function: \<open>None\<close> stands
  for a call that does not return.
\<close>

partial_function (option) fill_loop ::
  "('a \<Rightarrow> 'a) \<Rightarrow> ('a::linordered_idom) \<Rightarrow> 'a \<Rightarrow> 'a \<Rightarrow> 'a image \<Rightarrow> (int \<times> int) list
     \<Rightarrow> 'a image option" where
  "fill_loop conv vc v threshold im edge =
     (if edge = [] then Some im
      else fill_loop conv vc v threshold (fst (fill_sweep conv vc v threshold im edge))
             (snd (fill_sweep conv vc v threshold im edge)))"

declare fill_loop.simps [code]

text \<open>
  \<^verbatim>\<open>fill_outline\<close> returns nothing; its effect is the modified image, which the model
  returns.  The guard compares the seed's channel sum with \<^verbatim>\<open>v\<close> itself; the seed pixel
  then holds \<open>conv v\<close>.
\<close>

definition fill_outline ::
  "('a \<Rightarrow> 'a) \<Rightarrow> ('a::linordered_idom) image \<Rightarrow> int \<Rightarrow> int \<Rightarrow> 'a \<Rightarrow> 'a \<Rightarrow> 'a image option" where
  "fill_outline conv im y x v threshold =
     (if x < 0 \<or> x \<ge> int (shape_x im) \<or> y < 0 \<or> y \<ge> int (shape_y im) then Some im
      else if \<bar>pixel_sum im (nat y) (nat x) - v\<bar> < threshold then Some im
      else fill_loop conv (pixel_sum im (nat y) (nat x)) v threshold
             (set_pixel im (nat y) (nat x) (conv v)) [(y, x)])"

text \<open>
  The pixels that the similarity test of the fill loop accepts; their number is the
  measure by which the loop terminates.
\<close>

definition fillable :: "('a::linordered_idom) \<Rightarrow> 'a \<Rightarrow> 'a image \<Rightarrow> (nat \<times> nat) set" where
  "fillable vc threshold im =
     {(r, c). r < shape_y im \<and> c < shape_x im \<and> \<bar>pixel_sum im r c - vc\<bar> < threshold}"


section \<open>Fast line drawing\<close>

text \<open>
  Both line routines start alike: the line is steep when \<^verbatim>\<open>abs(y1 - y0) > abs(x1 - x0)\<close>,
  a steep line has its axes exchanged, and the end points are exchanged when
  \<^verbatim>\<open>x0 > x1\<close>.  \<open>line_ends\<close> is the resulting \<^verbatim>\<open>(y0, x0, y1, x1)\<close>.
\<close>

definition line_steep :: "('a::linordered_idom) \<Rightarrow> 'a \<Rightarrow> 'a \<Rightarrow> 'a \<Rightarrow> bool" where
  "line_steep y0 x0 y1 x1 \<longleftrightarrow> \<bar>y1 - y0\<bar> > \<bar>x1 - x0\<bar>"

definition line_ends :: "('a::linordered_idom) \<Rightarrow> 'a \<Rightarrow> 'a \<Rightarrow> 'a \<Rightarrow> 'a \<times> 'a \<times> 'a \<times> 'a" where
  "line_ends y0 x0 y1 x1 =
     (let p = (if line_steep y0 x0 y1 x1 then (x0, y0, x1, y1) else (y0, x0, y1, x1))
      in case p of (ya, xa, yb, xb) \<Rightarrow> if xa > xb then (yb, xb, ya, xa) else p)"

text \<open>
  The \<^verbatim>\<open>for x in xrange (x0, x1+1)\<close> loop of \<^verbatim>\<open>draw_line_fast\<close>.  The pixels it writes do
  not depend on the image contents, so the loop returns them as (row, column) pairs in
  the order of writing; a pixel outside the image is skipped.  The accumulator \<^verbatim>\<open>e\<close> and
  the slope \<^verbatim>\<open>de\<close> are floats in the source and real numbers here.
\<close>

function draw_line_fast_loop ::
  "nat \<Rightarrow> nat \<Rightarrow> bool \<Rightarrow> int \<Rightarrow> int \<Rightarrow> int \<Rightarrow> int \<Rightarrow> real \<Rightarrow> real \<Rightarrow> (nat \<times> nat) list" where
  "draw_line_fast_loop ny nx steep x x1 y ystep e de =
     (if x \<le> x1 then
        (if steep
         then (if x \<ge> 0 \<and> x < int ny \<and> y \<ge> 0 \<and> y < int nx then [(nat x, nat y)] else [])
         else (if x \<ge> 0 \<and> x < int nx \<and> y \<ge> 0 \<and> y < int ny then [(nat y, nat x)] else []))
        @ (if e + de \<ge> 1 / 2
           then draw_line_fast_loop ny nx steep (x + 1) x1 (y + ystep) ystep (e + de - 1) de
           else draw_line_fast_loop ny nx steep (x + 1) x1 y ystep (e + de) de)
      else [])"
  by pat_completeness auto
termination
  by (relation "measure (\<lambda>(ny, nx, steep, x, x1, y, ystep, e, de). nat (x1 + 1 - x))") auto

declare draw_line_fast_loop.simps [simp del]

definition draw_line_fast_writes ::
  "nat \<Rightarrow> nat \<Rightarrow> real \<Rightarrow> real \<Rightarrow> real \<Rightarrow> real \<Rightarrow> (nat \<times> nat) list" where
  "draw_line_fast_writes ny nx y0 x0 y1 x1 =
     (case line_ends (py_int y0) (py_int x0) (py_int y1) (py_int x1) of
        (ya, xa, yb, xb) \<Rightarrow>
          draw_line_fast_loop ny nx
            (line_steep (py_int y0) (py_int x0) (py_int y1) (py_int x1))
            xa xb ya (if ya < yb then 1 else - 1) 0
            (if real_of_int (xb - xa) = 0 then 10 ^ 30
             else real_of_int \<bar>yb - ya\<bar> / real_of_int (xb - xa)))"

text \<open>\<^verbatim>\<open>draw_line_fast\<close>: every written pixel gets the value \<^verbatim>\<open>v\<close> in all its channels.\<close>

definition draw_line_fast :: "'a image \<Rightarrow> real \<Rightarrow> real \<Rightarrow> real \<Rightarrow> real \<Rightarrow> 'a \<Rightarrow> 'a image" where
  "draw_line_fast im y0 x0 y1 x1 v =
     foldl (\<lambda>im' p. set_pixel im' (fst p) (snd p) v) im
       (draw_line_fast_writes (shape_y im) (shape_x im) y0 x0 y1 x1)"

section \<open>Fast circle drawing\<close>

text \<open>
  numpy resolves an integer index \<open>i\<close> on an axis of extent \<open>n\<close>: a negative index counts
  from the end, and an index outside \<open>-n \<dots> n-1\<close> raises \<^verbatim>\<open>IndexError\<close>.
\<close>

definition np_index :: "nat \<Rightarrow> int \<Rightarrow> error + nat" where
  "np_index n i =
     (if 0 \<le> i \<and> i < int n then Inr (nat i)
      else if - int n \<le> i \<and> i < 0 then Inr (nat (int n + i))
      else Inl IndexError)"

text \<open>The unguarded assignment \<^verbatim>\<open>im[y,x] = v\<close> with integer \<^verbatim>\<open>y\<close> and \<^verbatim>\<open>x\<close>.\<close>

definition np_set_pixel :: "'a image \<Rightarrow> int \<Rightarrow> int \<Rightarrow> 'a \<Rightarrow> error + 'a image" where
  "np_set_pixel im y x v =
     (case np_index (shape_y im) y of
        Inl e \<Rightarrow> Inl e
      | Inr r \<Rightarrow> (case np_index (shape_x im) x of
                    Inl e \<Rightarrow> Inl e
                  | Inr c \<Rightarrow> Inr (set_pixel im r c v)))"

fun np_set_pixels :: "'a image \<Rightarrow> (int \<times> int) list \<Rightarrow> 'a \<Rightarrow> error + 'a image" where
  "np_set_pixels im [] v = Inr im"
| "np_set_pixels im (p # ps) v =
     (case np_set_pixel im (fst p) (snd p) v of
        Inl e \<Rightarrow> Inl e
      | Inr im' \<Rightarrow> np_set_pixels im' ps v)"

text \<open>The eight assignments of one step of \<^verbatim>\<open>draw_circle_fast\<close>, in source order.\<close>

definition circle_octants :: "int \<Rightarrow> int \<Rightarrow> int \<Rightarrow> int \<Rightarrow> (int \<times> int) list" where
  "circle_octants yc xc x y =
     [(yc + y, xc + x), (yc + y, xc - x), (yc - y, xc + x), (yc - y, xc - x),
      (yc + x, xc + y), (yc + x, xc - y), (yc - x, xc + y), (yc - x, xc - y)]"

text \<open>\<^verbatim>\<open>while x < y\<close>; the result carries the final \<^verbatim>\<open>x\<close> and \<^verbatim>\<open>y\<close>.\<close>

function draw_circle_fast_loop ::
  "'a image \<Rightarrow> int \<Rightarrow> int \<Rightarrow> int \<Rightarrow> int \<Rightarrow> int \<Rightarrow> 'a \<Rightarrow> error + ('a image \<times> int \<times> int)" where
  "draw_circle_fast_loop im yc xc x y p v =
     (if x < y then
        (case np_set_pixels im (circle_octants yc xc x y) v of
           Inl e \<Rightarrow> Inl e
         | Inr im' \<Rightarrow>
             (if p < 0 then draw_circle_fast_loop im' yc xc (x + 1) y (p + (4 * x + 6)) v
              else draw_circle_fast_loop im' yc xc (x + 1) (y - 1) (p + (4 * (x - y) + 6)) v))
      else Inr (im, x, y))"
  by pat_completeness auto
termination
  by (relation "measure (\<lambda>(im, yc, xc, x, y, p, v). nat (y - x))") auto

text \<open>
  \<^verbatim>\<open>draw_circle_fast\<close>.  Every assignment stores \<^verbatim>\<open>v\<close> as converted by the buffer.  An
  exception ends the call (\<open>Some (Inl e)\<close>); the optional fill runs
  \<^verbatim>\<open>fill_outline (im, yc, xc, v)\<close> with its default threshold 100, and \<open>None\<close> stands for a
  fill that does not return.
\<close>

definition draw_circle_fast ::
  "('a \<Rightarrow> 'a) \<Rightarrow> ('a::linordered_idom) image \<Rightarrow> int \<Rightarrow> int \<Rightarrow> int \<Rightarrow> 'a \<Rightarrow> 'a option
     \<Rightarrow> (error + 'a image) option" where
  "draw_circle_fast conv im yc xc r v fill =
     (case draw_circle_fast_loop im yc xc 0 r (3 - 2 * r) (conv v) of
        Inl e \<Rightarrow> Some (Inl e)
      | Inr res \<Rightarrow>
          (case (if fst (snd res) = snd (snd res)
                 then np_set_pixels (fst res)
                        (circle_octants yc xc (fst (snd res)) (snd (snd res))) (conv v)
                 else Inr (fst res)) of
             Inl e \<Rightarrow> Some (Inl e)
           | Inr im' \<Rightarrow>
               (case fill of
                  None \<Rightarrow> Some (Inr im')
                | Some f \<Rightarrow> map_option Inr (fill_outline conv im' yc xc v 100))))"

section \<open>Anti-aliased line drawing\<close>

text \<open>
  The value argument of \<^verbatim>\<open>blend_pixel\<close> is a scalar, used for every channel, or a list
  with one value per channel.
\<close>

datatype 'a pyval = Scalar 'a | Chans "'a list"

text \<open>
  \<^verbatim>\<open>blend_pixel\<close>: nothing happens outside the image; inside, every channel \<open>c\<close> becomes
  \<^verbatim>\<open>v[c] * opac + (1.0 - opac) * im[y,x,c]\<close>.  A list shorter than the number of channels
  raises \<^verbatim>\<open>IndexError\<close>.  Floats are modelled as reals.
\<close>

definition blend_pixel :: "real image \<Rightarrow> int \<Rightarrow> int \<Rightarrow> real pyval \<Rightarrow> real \<Rightarrow> error + real image" where
  "blend_pixel im y x v opac =
     (if y \<ge> 0 \<and> y < int (shape_y im) \<and> x \<ge> 0 \<and> x < int (shape_x im) then
        (case v of
           Scalar s \<Rightarrow>
             Inr (set_pixel_vec im (nat y) (nat x)
                    (\<lambda>c. if c < shape_c im then s * opac + (1 - opac) * pix im (nat y) (nat x) c
                         else pix im (nat y) (nat x) c))
         | Chans vs \<Rightarrow>
             if length vs < shape_c im then Inl IndexError
             else Inr (set_pixel_vec im (nat y) (nat x)
                    (\<lambda>c. if c < shape_c im then vs ! c * opac + (1 - opac) * pix im (nat y) (nat x) c
                         else pix im (nat y) (nat x) c)))
      else Inr im)"

text \<open>\<^verbatim>\<open>intery - int(intery)\<close>: the part cut off by the truncation, negative below zero.\<close>

definition py_frac :: "real \<Rightarrow> real" where
  "py_frac r = r - real_of_int (py_int r)"

text \<open>
  A call \<^verbatim>\<open>blend_pixel (im, row, col, v, opac)\<close> is recorded as \<open>((row, col), opac)\<close>.
  For a steep line the column counter \<^verbatim>\<open>x\<close> is the row of the image.
\<close>

definition wu_pos :: "bool \<Rightarrow> int \<Rightarrow> int \<Rightarrow> int \<times> int" where
  "wu_pos steep x y = (if steep then (x, y) else (y, x))"

text \<open>The slope \<^verbatim>\<open>de\<close>, with the sentinel for \<^verbatim>\<open>dx == 0.0\<close>.\<close>

definition wu_slope :: "real \<Rightarrow> real \<Rightarrow> real \<Rightarrow> real \<Rightarrow> real" where
  "wu_slope ya xa yb xb = (if xb - xa = 0 then 10 ^ 30 else (yb - ya) / (xb - xa))"

text \<open>\<^verbatim>\<open>xpxl = int (int (x + 0.5))\<close> and \<^verbatim>\<open>yend = y + de * (xend - x)\<close> of an end point.\<close>

definition wu_xpxl :: "real \<Rightarrow> int" where
  "wu_xpxl x = py_int (x + 1 / 2)"

definition wu_yend :: "real \<Rightarrow> real \<Rightarrow> real \<Rightarrow> real" where
  "wu_yend y x de = y + de * (real_of_int (py_int (x + 1 / 2)) - x)"

text \<open>The two calls for an end point.\<close>

definition wu_end_calls :: "bool \<Rightarrow> int \<Rightarrow> real \<Rightarrow> ((int \<times> int) \<times> real) list" where
  "wu_end_calls steep xpxl yend =
     [(wu_pos steep xpxl (py_int yend), 1 - py_frac yend),
      (wu_pos steep xpxl (py_int yend + 1), py_frac yend)]"

text \<open>
  The main loop \<^verbatim>\<open>for x in xrange (xpxl1+1, xpxl2)\<close>: the calls made, and the exception
  that ended the loop if there is one.  \<^verbatim>\<open>math.sqrt\<close> of a negative number raises
  \<^verbatim>\<open>ValueError\<close>; the arguments of a call are evaluated before the call is made.
\<close>

function draw_line_loop ::
  "bool \<Rightarrow> int \<Rightarrow> int \<Rightarrow> real \<Rightarrow> real \<Rightarrow> ((int \<times> int) \<times> real) list \<times> error option" where
  "draw_line_loop steep x xpxl2 intery de =
     (if x < xpxl2 then
        (if 1 - py_frac intery < 0 then ([], Some ValueError)
         else if py_frac intery < 0
         then ([(wu_pos steep x (py_int intery), sqrt (1 - py_frac intery))], Some ValueError)
         else
           (let rest = draw_line_loop steep (x + 1) xpxl2 (intery + de) de
            in ([(wu_pos steep x (py_int intery), sqrt (1 - py_frac intery)),
                 (wu_pos steep x (py_int intery + 1), sqrt (py_frac intery))] @ fst rest,
                snd rest)))
      else ([], None))"
  by pat_completeness auto
termination
  by (relation "measure (\<lambda>(steep, x, xpxl2, intery, de). nat (xpxl2 - x))") auto

declare draw_line_loop.simps [simp del]

text \<open>
  The calls of the main loop in closed form, for \<open>n\<close> columns from column \<open>x\<close> on and the
  first intersection \<open>intery\<close>: column \<open>x + k\<close> has the intersection \<open>intery + k * de\<close>, and
  the rows \<open>\<lfloor>intery\<rfloor>\<close> and \<open>\<lfloor>intery\<rfloor> + 1\<close> are blended with the square roots of one minus the
  fractional part and of the fractional part.
\<close>

definition interior_calls :: "bool \<Rightarrow> int \<Rightarrow> real \<Rightarrow> real \<Rightarrow> nat \<Rightarrow> ((int \<times> int) \<times> real) list" where
  "interior_calls steep x intery de n =
     concat (map (\<lambda>k. [(wu_pos steep (x + int k) \<lfloor>intery + real k * de\<rfloor>, sqrt (1 - frac (intery + real k * de))),
                       (wu_pos steep (x + int k) (\<lfloor>intery + real k * de\<rfloor> + 1), sqrt (frac (intery + real k * de)))])
                 [0..<n])"

text \<open>All the \<^verbatim>\<open>blend_pixel\<close> calls of \<^verbatim>\<open>draw_line\<close>, in order.\<close>

definition draw_line_calls ::
  "real \<Rightarrow> real \<Rightarrow> real \<Rightarrow> real \<Rightarrow> ((int \<times> int) \<times> real) list \<times> error option" where
  "draw_line_calls y0 x0 y1 x1 =
     (case line_ends y0 x0 y1 x1 of
        (ya, xa, yb, xb) \<Rightarrow>
          (let steep = line_steep y0 x0 y1 x1;
               de = wu_slope ya xa yb xb;
               intery = wu_yend ya xa de + de;
               loop = draw_line_loop steep (wu_xpxl xa + 1) (wu_xpxl xb) intery de
           in (wu_end_calls steep (wu_xpxl xa) (wu_yend ya xa de) @
               wu_end_calls steep (wu_xpxl xb) (wu_yend yb xb de) @ fst loop,
               snd loop)))"

text \<open>
  \<^verbatim>\<open>draw_line\<close>: the calls are made in order; an exception ends the routine, and the
  model does not keep the partly drawn image.
\<close>

definition draw_line :: "real image \<Rightarrow> real \<Rightarrow> real \<Rightarrow> real \<Rightarrow> real \<Rightarrow> real pyval \<Rightarrow> error + real image" where
  "draw_line im y0 x0 y1 x1 v =
     (case fold_err (\<lambda>im' c. blend_pixel im' (fst (fst c)) (snd (fst c)) v (snd c)) im
             (fst (draw_line_calls y0 x0 y1 x1)) of
        Inl e \<Rightarrow> Inl e
      | Inr im' \<Rightarrow> (case snd (draw_line_calls y0 x0 y1 x1) of
                     Some e \<Rightarrow> Inl e
                   | None \<Rightarrow> Inr im'))"

section \<open>Region extraction\<close>

text \<open>\<^verbatim>\<open>tiny = 1.0e-7\<close>, the module constant.\<close>

definition tiny :: real where
  "tiny = 1 / 10 ^ 7"

text \<open>\<^verbatim>\<open>mono (im)\<close> averages the channels; the result has the single channel 0.\<close>

definition mono :: "real image \<Rightarrow> real image" where
  "mono im = \<lparr>shape_y = shape_y im, shape_x = shape_x im, shape_c = 1,
              pix = (\<lambda>y x c. pixel_sum im y x / real (shape_c im))\<rparr>"

text \<open>
  The interpolation code chosen from the name, with the diagnostics written to
  \<^verbatim>\<open>sys.stderr\<close>: an unknown name gives a message and the code of \<^verbatim>\<open>'nearest'\<close>.
\<close>

definition interp_code :: "string \<Rightarrow> nat \<times> string list" where
  "interp_code interpolator =
     (if interpolator = ''gradient'' then (2, [])
      else if interpolator = ''bilinear'' then (3, [])
      else if interpolator = ''nearest'' then (1, [])
      else (1, [''extract: invalid interpolator '' @ [CHR 0x22] @ interpolator @ [CHR 0x22] @
                ''; using '' @ [CHR 0x22] @ ''nearest'' @ [CHR 0x22]]))"

text \<open>
  The value of one output pixel sampled at \<^verbatim>\<open>(ypos, xpos)\<close>, as a function from the
  channel to the sample.  Floats are modelled as reals.  The remainder by an extent that
  is 0 raises \<^verbatim>\<open>ZeroDivisionError\<close>.
\<close>

definition extract_sample ::
  "real image \<Rightarrow> real image \<Rightarrow> nat \<Rightarrow> bool \<Rightarrow> real \<Rightarrow> real \<Rightarrow> real \<Rightarrow> error + (nat \<Rightarrow> real)" where
  "extract_sample im mim interp wrap val ypos xpos =
     (let ny = int (shape_y im); nx = int (shape_x im) in
      if (ypos < 0 \<or> ypos \<ge> real_of_int ny \<or> xpos < 0 \<or> xpos \<ge> real_of_int nx) \<and> \<not> wrap
      then Inr (\<lambda>k. val)
      else if ny = 0 then Inl ZeroDivisionError
      else
        let dy = ypos - real_of_int (py_int ypos);
            dy1 = 1 - dy;
            ylo = (py_int ypos + ny) mod ny;
            yhi = ylo + 1
        in if yhi \<ge> ny \<and> \<not> wrap then Inr (\<lambda>k. val)
           else if nx = 0 then Inl ZeroDivisionError
           else
             let yhi = (yhi + ny) mod ny;
                 dx = xpos - real_of_int (py_int xpos);
                 dx1 = 1 - dx;
                 xlo = (py_int xpos + nx) mod nx;
                 xhi = xlo + 1
             in if xhi \<ge> nx \<and> \<not> wrap then Inr (\<lambda>k. val)
                else
                  let xhi = (xhi + nx) mod nx in
                  if interp = 3 then
                    Inr (\<lambda>k. dy * dx * pix im (nat yhi) (nat xhi) k
                            + dy * dx1 * pix im (nat yhi) (nat xlo) k
                            + dy1 * dx * pix im (nat ylo) (nat xhi) k
                            + dy1 * dx1 * pix im (nat ylo) (nat xlo) k)
                  else if interp = 2 then
                    (if \<bar>pix mim (nat ylo) (nat xlo) 0 - pix mim (nat yhi) (nat xhi) 0\<bar>
                          > \<bar>pix mim (nat yhi) (nat xlo) 0 - pix mim (nat ylo) (nat xhi) 0\<bar>
                     then Inr (\<lambda>k. (dx - dy) * pix im (nat ylo) (nat xhi) k
                                  + dx1 * pix im (nat ylo) (nat xlo) k
                                  + dy * pix im (nat yhi) (nat xhi) k)
                     else Inr (\<lambda>k. (dx1 - dy) * pix im (nat ylo) (nat xlo) k
                                  + dx * pix im (nat ylo) (nat xhi) k
                                  + dy * pix im (nat yhi) (nat xlo) k))
                  else
                    Inr (\<lambda>k. pix im (nat (py_int (real_of_int ylo + 1 / 2)))
                                     (nat (py_int (real_of_int xlo + 1 / 2))) k))"

text \<open>
  The body of the inner loop over \<^verbatim>\<open>x\<close>; the state is the region with the running
  \<^verbatim>\<open>ypos\<close> and \<^verbatim>\<open>xpos\<close>.
\<close>

definition extract_pixel ::
  "real image \<Rightarrow> real image \<Rightarrow> nat \<Rightarrow> bool \<Rightarrow> real \<Rightarrow> real \<Rightarrow> real \<Rightarrow> real \<Rightarrow> real \<Rightarrow> nat
     \<Rightarrow> real image \<times> real \<times> real \<Rightarrow> nat \<Rightarrow> error + (real image \<times> real \<times> real)" where
  "extract_pixel im mim interp wrap val ystep xstep cosfac sinfac y st x =
     (case st of (region, ypos, xpos) \<Rightarrow>
        (case extract_sample im mim interp wrap val ypos xpos of
           Inl e \<Rightarrow> Inl e
         | Inr f \<Rightarrow> Inr (set_pixel_vec region y x f, ypos - ystep * sinfac, xpos + xstep * cosfac)))"

text \<open>
  The body of the outer loop over \<^verbatim>\<open>y\<close>; the state is the region with the running
  \<^verbatim>\<open>yst\<close> and \<^verbatim>\<open>xst\<close>.
\<close>

definition extract_line ::
  "real image \<Rightarrow> real image \<Rightarrow> nat \<Rightarrow> bool \<Rightarrow> real \<Rightarrow> real \<Rightarrow> real \<Rightarrow> real \<Rightarrow> real \<Rightarrow> nat
     \<Rightarrow> real image \<times> real \<times> real \<Rightarrow> nat \<Rightarrow> error + (real image \<times> real \<times> real)" where
  "extract_line im mim interp wrap val ystep xstep cosfac sinfac rx st y =
     (case st of (region, yst, xst) \<Rightarrow>
        (case fold_err (extract_pixel im mim interp wrap val ystep xstep cosfac sinfac y)
                (region, yst, xst) [0..<rx] of
           Inl e \<Rightarrow> Inl e
         | Inr st' \<Rightarrow> Inr (fst st', yst + ystep * cosfac, xst + xstep * sinfac)))"

text \<open>The first sample position \<^verbatim>\<open>(yst, xst)\<close> of the general path.\<close>

definition extract_start :: "nat \<Rightarrow> nat \<Rightarrow> real \<Rightarrow> real \<Rightarrow> real \<Rightarrow> real \<Rightarrow> real \<Rightarrow> real \<times> real" where
  "extract_start ry rx yc xc ystep xstep angle =
     (let cosfac = cos (- angle); sinfac = sin (- angle);
          disty = real ry / 2; distx = real rx / 2
      in (yc + distx * xstep * sinfac - disty * ystep * cosfac,
          xc - distx * xstep * cosfac - disty * ystep * sinfac))"

text \<open>
  \<^verbatim>\<open>extract\<close> (named \<open>extract_region\<close> here, \<open>extract\<close> being a command of Isabelle);
  \<^verbatim>\<open>step\<close> is given as the pair \<^verbatim>\<open>ystep\<close>, \<^verbatim>\<open>xstep\<close> (a scalar step is the
  same value twice).  The result is the region with the diagnostics written.  The fast
  path slices \<^verbatim>\<open>im[y0:y0+ry, x0:x0+rx]\<close>, the slice bounds truncated to integers and cut
  off at the extents of the image.
\<close>

definition extract_region ::
  "real image \<Rightarrow> nat \<Rightarrow> nat \<Rightarrow> real \<Rightarrow> real \<Rightarrow> real \<Rightarrow> real \<Rightarrow> real \<Rightarrow> bool \<Rightarrow> real \<Rightarrow> string
     \<Rightarrow> error + (real image \<times> string list)" where
  "extract_region im ry rx yc xc ystep xstep angle wrap val interpolator =
     (let ny = shape_y im; nx = shape_x im; nc = shape_c im;
          region = \<lparr>shape_y = ry, shape_x = rx, shape_c = nc, pix = (\<lambda>y x c. 0)\<rparr>;
          y0 = yc - real ry / 2;
          x0 = xc - real rx / 2
      in if \<bar>angle\<bar> < tiny \<and> \<bar>ystep - 1\<bar> < tiny \<and> \<bar>xstep - 1\<bar> < tiny \<and>
            ry < ny \<and> rx < nx \<and> y0 \<ge> 0 \<and> x0 \<ge> 0 \<and>
            \<bar>y0 - real_of_int (py_int y0)\<bar> < tiny \<and> \<bar>x0 - real_of_int (py_int x0)\<bar> < tiny
         then Inr (\<lparr>shape_y = min (nat (py_int (y0 + real ry))) ny - nat (py_int y0),
                     shape_x = min (nat (py_int (x0 + real rx))) nx - nat (py_int x0),
                     shape_c = nc,
                     pix = (\<lambda>y x c. pix im (nat (py_int y0) + y) (nat (py_int x0) + x) c)\<rparr>, [])
         else
           (let interp = fst (interp_code interpolator);
                mim = (if interpolator = ''gradient'' then mono im else im);
                cosfac = cos (- angle);
                sinfac = sin (- angle);
                start = extract_start ry rx yc xc ystep xstep angle
            in case fold_err (extract_line im mim interp wrap val ystep xstep cosfac sinfac rx)
                      (region, fst start, snd start) [0..<ry] of
                 Inl e \<Rightarrow> Inl e
               | Inr st \<Rightarrow> Inr (fst st, snd (interp_code interpolator))))"

section \<open>Region labelling\<close>

text \<open>
  The state of the raster pass of \<^verbatim>\<open>label_regions_slow\<close>: the label image, the last label
  given out and the equivalence table.  Labels start at 0 and only grow, so they are
  natural numbers.
\<close>

record lstate =
  lab :: "nat image"
  lastlabel :: nat
  equiv :: "nat list"

text \<open>\<^verbatim>\<open>lab[y,x,0] = v\<close>.\<close>

definition set_label :: "nat image \<Rightarrow> nat \<Rightarrow> nat \<Rightarrow> nat \<Rightarrow> nat image" where
  "set_label l y x v = l\<lparr>pix := (\<lambda>r c k. if r = y \<and> c = x \<and> k = 0 then v else pix l r c k)\<rparr>"

text \<open>\<^verbatim>\<open>lastlabel += 1; equiv.append (lastlabel)\<close>.\<close>

definition new_label :: "lstate \<Rightarrow> lstate" where
  "new_label st = st\<lparr>lastlabel := lastlabel st + 1, equiv := equiv st @ [lastlabel st + 1]\<rparr>"

text \<open>
  The values and labels of the neighbours that the pass looks at, in the order of the
  arrays \<^verbatim>\<open>vals\<close> and \<^verbatim>\<open>labs\<close>: left, above, and with \<^verbatim>\<open>con8\<close> above left and, unless
  \<^verbatim>\<open>lastcol\<close> is set, above right.  The list has the \<^verbatim>\<open>nv\<close> entries that the source
  reads; \<^verbatim>\<open>lastcol\<close> is set when \<^verbatim>\<open>x2 >= nx - 1 and con8\<close>.
\<close>

definition neighbours :: "'a image \<Rightarrow> nat image \<Rightarrow> bool \<Rightarrow> nat \<Rightarrow> nat \<Rightarrow> ('a \<times> nat) list" where
  "neighbours im l con8 y x =
     (let y1 = y - 1; x1 = x - 1; x2 = x + 1;
          lastcol = (x2 \<ge> shape_x im - 1 \<and> con8)
      in [(pix im y x1 0, pix l y x1 0), (pix im y1 x 0, pix l y1 x 0)] @
         (if con8 then [(pix im y1 x1 0, pix l y1 x1 0)] @
                       (if \<not> lastcol then [(pix im y1 x2 0, pix l y1 x2 0)] else [])
          else []))"

text \<open>
  One turn of \<^verbatim>\<open>for v in matches[1:]\<close>; an index outside the table raises
  \<^verbatim>\<open>IndexError\<close>.
\<close>

definition merge_equiv :: "nat \<Rightarrow> nat list \<Rightarrow> nat \<Rightarrow> error + nat list" where
  "merge_equiv lv eq v =
     (if v \<ge> length eq then Inl IndexError
      else if eq ! v > lv then Inr (eq[v := lv])
      else if lv > eq ! v then
        (if lv \<ge> length eq then Inl IndexError else Inr (eq[lv := eq ! v]))
      else Inr eq)"

text \<open>
  The raster pass is three loops: the rest of the first row, the first column, and the
  remainder of the image.  Their turns, in order, are the steps of the pass.
\<close>

datatype lstep = FirstRow nat | FirstCol nat | Rest nat nat

definition label_steps :: "nat \<Rightarrow> nat \<Rightarrow> lstep list" where
  "label_steps ny nx =
     map FirstRow [1..<nx] @ map FirstCol [1..<ny] @
     concat (map (\<lambda>y. map (Rest y) [1..<nx]) [1..<ny])"

fun label_step :: "'a image \<Rightarrow> bool \<Rightarrow> lstate \<Rightarrow> lstep \<Rightarrow> error + lstate" where
  "label_step im con8 st (FirstRow x) =
     (let st' = (if pix im 0 x 0 \<noteq> pix im 0 (x - 1) 0 then new_label st else st)
      in Inr (st'\<lparr>lab := set_label (lab st') 0 x (lastlabel st')\<rparr>))"
| "label_step im con8 st (FirstCol y) =
     (if pix im y 0 0 = pix im (y - 1) 0 0
      then Inr (st\<lparr>lab := set_label (lab st) y 0 (pix (lab st) (y - 1) 0 0)\<rparr>)
      else (let st' = new_label st
            in Inr (st'\<lparr>lab := set_label (lab st') y 0 (lastlabel st')\<rparr>)))"
| "label_step im con8 st (Rest y x) =
     (let nbrs = neighbours im (lab st) con8 y x;
          val = pix im y x 0
      in if \<not> list_ex (\<lambda>p. val = fst p) nbrs
         then (let st' = new_label st
               in Inr (st'\<lparr>lab := set_label (lab st') y x (lastlabel st')\<rparr>))
         else (let matches = sort (map snd (filter (\<lambda>p. val = fst p) nbrs));
                   lv = hd matches
               in case fold_err (merge_equiv lv) (equiv st) (tl matches) of
                    Inl e \<Rightarrow> Inl e
                  | Inr eq' \<Rightarrow> Inr (st\<lparr>equiv := eq', lab := set_label (lab st) y x lv\<rparr>)))"

text \<open>
  The state before the pass: \<^verbatim>\<open>lab\<close> is an image of zeros with the extents of \<^verbatim>\<open>im\<close>,
  the upper left pixel is in region zero.
\<close>

definition label_init :: "'a image \<Rightarrow> lstate" where
  "label_init im =
     \<lparr>lab = \<lparr>shape_y = shape_y im, shape_x = shape_x im, shape_c = shape_c im,
              pix = (\<lambda>y x c. 0)\<rparr>,
      lastlabel = 0, equiv = [0]\<rparr>"

definition raster_pass :: "'a image \<Rightarrow> bool \<Rightarrow> lstep list \<Rightarrow> error + lstate" where
  "raster_pass im con8 steps = fold_err (label_step im con8) (label_init im) steps"

text \<open>
  \<^verbatim>\<open>while equiv[v] != v: v = equiv[v]\<close> may run forever on a table with a cycle, so it
  is a partial function; \<open>None\<close> stands for a loop that does not end.
\<close>

partial_function (option) find_root :: "nat list \<Rightarrow> nat \<Rightarrow> (error + nat) option" where
  "find_root eq v =
     (if v \<ge> length eq then Some (Inl IndexError)
      else if eq ! v \<noteq> v then find_root eq (eq ! v)
      else Some (Inr v))"

declare find_root.simps [code]

text \<open>
  A fold whose body may raise or not return.
\<close>

primrec fold_opt_err ::
  "('s \<Rightarrow> 'a \<Rightarrow> (error + 's) option) \<Rightarrow> 's \<Rightarrow> 'a list \<Rightarrow> (error + 's) option" where
  "fold_opt_err f s [] = Some (Inr s)"
| "fold_opt_err f s (a # as) =
     (case f s a of
        None \<Rightarrow> None
      | Some (Inl e) \<Rightarrow> Some (Inl e)
      | Some (Inr s') \<Rightarrow> fold_opt_err f s' as)"

text \<open>
  One turn of the loop that tidies up the equivalence table; the state is \<^verbatim>\<open>remap\<close>
  with the counter \<^verbatim>\<open>nc\<close>, which starts at -1.
\<close>

definition tidy_step :: "nat list \<Rightarrow> nat list \<times> int \<Rightarrow> nat \<Rightarrow> (error + (nat list \<times> int)) option" where
  "tidy_step eq st i =
     (if eq ! i = i then Some (Inr (fst st @ [nat (snd st + 1)], snd st + 1))
      else (case find_root eq i of
              None \<Rightarrow> None
            | Some (Inl e) \<Rightarrow> Some (Inl e)
            | Some (Inr v) \<Rightarrow>
                if v \<ge> length (fst st) then Some (Inl IndexError)
                else Some (Inr (fst st @ [fst st ! v], snd st))))"

definition tidy :: "nat list \<Rightarrow> (error + (nat list \<times> int)) option" where
  "tidy eq = fold_opt_err (tidy_step eq) ([], - 1) [0..<length eq]"

text \<open>The second pass: \<^verbatim>\<open>lab[y,x,0] = remap[lab[y,x,0]]\<close> for every pixel.\<close>

definition relabel :: "nat list \<Rightarrow> nat image \<Rightarrow> error + nat image" where
  "relabel remap l =
     (if list_ex (\<lambda>y. list_ex (\<lambda>x. pix l y x 0 \<ge> length remap) [0..<shape_x l]) [0..<shape_y l]
      then Inl IndexError
      else Inr (l\<lparr>pix := (\<lambda>r c k. if r < shape_y l \<and> c < shape_x l \<and> k = 0
                                  then remap ! pix l r c 0 else pix l r c k)\<rparr>))"

text \<open>
  \<^verbatim>\<open>max (lab)\<close> is the module's own \<^verbatim>\<open>max\<close>, which returns \<^verbatim>\<open>lab.max()\<close>: the largest
  element of the array.
\<close>

definition image_max :: "nat image \<Rightarrow> nat" where
  "image_max l =
     foldl max 0 (concat (map (\<lambda>y. concat (map (\<lambda>x. map (pix l y x) [0..<shape_c l])
                                               [0..<shape_x l]))
                             [0..<shape_y l]))"

text \<open>
  \<^verbatim>\<open>label_regions_slow\<close>: the labelled image and \<^verbatim>\<open>max (lab)\<close>.  On an image with an
  extent of 0 the first assignment \<^verbatim>\<open>lab[0,0,0] = lastlabel\<close> raises \<^verbatim>\<open>IndexError\<close>.
\<close>

definition label_regions_slow :: "'a image \<Rightarrow> bool \<Rightarrow> (error + (nat image \<times> nat)) option" where
  "label_regions_slow im con8 =
     (if shape_y im = 0 \<or> shape_x im = 0 \<or> shape_c im = 0 then Some (Inl IndexError)
      else
        (case raster_pass im con8 (label_steps (shape_y im) (shape_x im)) of
           Inl e \<Rightarrow> Some (Inl e)
         | Inr st \<Rightarrow>
             (case tidy (equiv st) of
                None \<Rightarrow> None
              | Some (Inl e) \<Rightarrow> Some (Inl e)
              | Some (Inr rm) \<Rightarrow>
                  (case relabel (fst rm) (lab st) of
                     Inl e \<Rightarrow> Some (Inl e)
                   | Inr l \<Rightarrow> Some (Inr (l, image_max l))))))"

text \<open>
  The invariants of the labelling: every entry of the equivalence table points to itself
  or to a smaller label; the table has one entry per label given out and every label in
  the label image has been given out.
\<close>

definition equiv_ok :: "nat list \<Rightarrow> bool" where
  "equiv_ok eq \<longleftrightarrow> (\<forall>i < length eq. eq ! i \<le> i)"

definition label_inv :: "lstate \<Rightarrow> bool" where
  "label_inv st \<longleftrightarrow>
     length (equiv st) = lastlabel st + 1 \<and> equiv_ok (equiv st) \<and>
     (\<forall>y x. pix (lab st) y x 0 \<le> lastlabel st)"

text \<open>
  The roots of the table below an index, and the invariant of the tidying loop before
  its turn \<open>i\<close>: a root is mapped to the number of roots before it, every other label to
  the new label of the root its chain ends in, and the new labels used so far are the
  numbers below the number of roots met.
\<close>

definition roots_below :: "nat list \<Rightarrow> nat \<Rightarrow> nat set" where
  "roots_below eq i = {r. r < i \<and> eq ! r = r}"

definition tidy_inv :: "nat list \<Rightarrow> nat \<Rightarrow> nat list \<times> int \<Rightarrow> bool" where
  "tidy_inv eq i st \<longleftrightarrow>
     length (fst st) = i \<and>
     snd st = int (card (roots_below eq i)) - 1 \<and>
     (\<forall>r < i. eq ! r = r \<longrightarrow> fst st ! r = card (roots_below eq r)) \<and>
     (\<forall>j < i. \<forall>r. find_root eq j = Some (Inr r) \<longrightarrow> fst st ! j = fst st ! r) \<and>
     set (fst st) = {0..<card (roots_below eq i)}"

section \<open>Example buffers\<close>

text \<open>A 3 by 5 single-channel buffer with two equal maxima in row 1.\<close>

definition im_two_peaks :: "int image" where
  "im_two_peaks = \<lparr>shape_y = 3, shape_x = 5, shape_c = 1,
                   pix = (\<lambda>y x c. if y = 1 \<and> (x = 1 \<or> x = 3) then 9 else 0)\<rparr>"

text \<open>
  A 10 by 10 single-channel buffer, 0 everywhere except for the value 7 in the rectangle
  of rows 2 to 4 and columns 3 to 6.
\<close>

definition im_rect :: "int image" where
  "im_rect = \<lparr>shape_y = 10, shape_x = 10, shape_c = 1,
              pix = (\<lambda>y x c. if 2 \<le> y \<and> y \<le> 4 \<and> 3 \<le> x \<and> x \<le> 6 then 7 else 0)\<rparr>"


text \<open>A 5 by 5 single-channel buffer of zeros.\<close>

definition im_zero5 :: "int image" where
  "im_zero5 = \<lparr>shape_y = 5, shape_x = 5, shape_c = 1, pix = (\<lambda>y x c. 0)\<rparr>"

text \<open>A 3 by 3 single-channel buffer with the value \<open>3 * y + x\<close> at row \<open>y\<close>, column \<open>x\<close>.\<close>

definition im_ramp3 :: "real image" where
  "im_ramp3 = \<lparr>shape_y = 3, shape_x = 3, shape_c = 1, pix = (\<lambda>y x c. real (3 * y + x))\<rparr>"

text \<open>A single row of two pixels with the values 5 and 7.\<close>

definition im_two_regions :: "int image" where
  "im_two_regions = \<lparr>shape_y = 1, shape_x = 2, shape_c = 1,
                     pix = (\<lambda>y x c. if x = 0 then 5 else 7)\<rparr>"

text \<open>
  A 3 by 4 single-channel buffer: a background of 0 with the value 1 at (0,1), (0,3),
  (1,1), (1,3) and along row 2 from column 1 on, where the two columns of ones meet.
\<close>

definition im_fork :: "int image" where
  "im_fork = \<lparr>shape_y = 3, shape_x = 4, shape_c = 1,
              pix = (\<lambda>y x c. if (x = 1 \<or> x = 3) \<or> (y = 2 \<and> 1 \<le> x) then 1 else 0)\<rparr>"

section \<open>Theorems\<close>


subsection \<open>Peak detection\<close>

lemma concat_map_if: "concat (map (\<lambda>x. if P x then [f x] else []) xs) = map f (filter P xs)"
  by (induction xs) auto

lemma set_peak_scan:
  "set (peak_scan im t) =
     {(pix im y x 0, y, x) | y x.
        1 \<le> y \<and> y + 1 < shape_y im \<and> 1 \<le> x \<and> x + 1 < shape_x im \<and> is_peak im t y x}"
  unfolding peak_scan_def by (fastforce simp: concat_map_if)

lemma distinct_peak_scan: "distinct (peak_scan im t)"
proof -
  have inner: "distinct (concat (map (\<lambda>x. if is_peak im t y x then [(pix im y x 0, y, x)] else []) xs))"
    if "distinct xs" for y and xs :: "nat list"
    using that by (simp add: concat_map_if distinct_map inj_on_def)
  have outer: "distinct (concat (map (\<lambda>y. concat (map (\<lambda>x. if is_peak im t y x then [(pix im y x 0, y, x)] else []) xs)) ys))"
    if "distinct ys" "distinct xs" for ys xs :: "nat list"
    using that
  proof (induction ys)
    case Nil
    then show ?case by simp
  next
    case (Cons y ys)
    then show ?case using inner[of xs y] by (auto simp: concat_map_if)
  qed
  show ?thesis unfolding peak_scan_def by (rule outer) simp_all
qed

text \<open>
  The nine comparisons of the source say that the pixel exceeds each of its eight
  neighbours and the threshold.
\<close>

lemma is_peak_iff:
  assumes "1 \<le> y" "1 \<le> x"
  shows "is_peak im t y x \<longleftrightarrow>
    (\<forall>y' x'. (y' \<noteq> y \<or> x' \<noteq> x) \<and> y - 1 \<le> y' \<and> y' \<le> y + 1 \<and> x - 1 \<le> x' \<and> x' \<le> x + 1
        \<longrightarrow> pix im y' x' 0 < pix im y x 0) \<and> t < pix im y x 0"
proof
  assume p: "is_peak im t y x"
  have "pix im y' x' 0 < pix im y x 0"
    if h: "y' \<noteq> y \<or> x' \<noteq> x" "y - 1 \<le> y'" "y' \<le> y + 1" "x - 1 \<le> x'" "x' \<le> x + 1" for y' x'
  proof -
    from h assms have "y' = y - 1 \<or> y' = y \<or> y' = y + 1" by arith
    moreover from h assms have "x' = x - 1 \<or> x' = x \<or> x' = x + 1" by arith
    ultimately show ?thesis using p h(1) unfolding is_peak_def by auto
  qed
  with p show "(\<forall>y' x'. (y' \<noteq> y \<or> x' \<noteq> x) \<and> y - 1 \<le> y' \<and> y' \<le> y + 1 \<and> x - 1 \<le> x' \<and> x' \<le> x + 1
        \<longrightarrow> pix im y' x' 0 < pix im y x 0) \<and> t < pix im y x 0"
    unfolding is_peak_def by blast
next
  assume r: "(\<forall>y' x'. (y' \<noteq> y \<or> x' \<noteq> x) \<and> y - 1 \<le> y' \<and> y' \<le> y + 1 \<and> x - 1 \<le> x' \<and> x' \<le> x + 1
        \<longrightarrow> pix im y' x' 0 < pix im y x 0) \<and> t < pix im y x 0"
  then have n: "\<And>y' x'. y' \<noteq> y \<or> x' \<noteq> x \<Longrightarrow> y - 1 \<le> y' \<Longrightarrow> y' \<le> y + 1 \<Longrightarrow>
      x - 1 \<le> x' \<Longrightarrow> x' \<le> x + 1 \<Longrightarrow> pix im y' x' 0 < pix im y x 0"
    and th: "t < pix im y x 0" by blast+
  show "is_peak im t y x" unfolding is_peak_def
    using assms th by (intro conjI n) auto
qed

lemma py_sort_reverse_desc:
  "distinct xs \<Longrightarrow> sorted_wrt (\<lambda>a b. a > b) (py_sort_reverse xs)"
  unfolding py_sort_reverse_def
  by (simp add: sorted_wrt_rev strict_sorted_iff)

lemma set_py_sort_reverse: "set (py_sort_reverse xs) = set xs"
  unfolding py_sort_reverse_def by simp

text \<open>
  C4 (as stated): \<^verbatim>\<open>find_peaks\<close> returns the peaks sorted descending by value with ties
  broken by ascending row and then column.  This fails: for two equal peaks at (1,1) and
  (1,3) the code returns the one in column 3 first.
\<close>

theorem find_peaks_ties_counterexample:
  "find_peaks im_two_peaks 0 = Inr [(9, 1, 3), (9, 1, 1)] \<and>
   find_peaks im_two_peaks 0 \<noteq> Inr [(9, 1, 1), (9, 1, 3)]"
  by (simp add: find_peaks_def im_two_peaks_def peak_scan_def is_peak_def py_sort_reverse_def upt_rec)

text \<open>
  C4 (amended): for every buffer with at least one channel and every threshold,
  \<^verbatim>\<open>find_peaks\<close> returns exactly the triples (value, row, col) of the pixels strictly
  inside a 1-pixel border whose channel-0 value strictly exceeds all eight neighbours and
  the threshold, in strictly descending lexicographic order of (value, row, col): descending
  by value, ties broken by descending row and then descending column.
\<close>

theorem find_peaks_descending:
  assumes "0 < shape_c im"
  shows "\<exists>ps. find_peaks im t = Inr ps \<and>
     set ps = {(pix im y x 0, y, x) | y x.
                 1 \<le> y \<and> y + 1 < shape_y im \<and> 1 \<le> x \<and> x + 1 < shape_x im \<and>
                 (\<forall>y' x'. (y' \<noteq> y \<or> x' \<noteq> x) \<and> y - 1 \<le> y' \<and> y' \<le> y + 1 \<and>
                          x - 1 \<le> x' \<and> x' \<le> x + 1 \<longrightarrow> pix im y' x' 0 < pix im y x 0) \<and>
                 t < pix im y x 0} \<and>
     sorted_wrt (\<lambda>a b. a > b) ps"
proof -
  have "{(pix im y x 0, y, x) | y x. 1 \<le> y \<and> y + 1 < shape_y im \<and> 1 \<le> x \<and> x + 1 < shape_x im \<and> is_peak im t y x}
      = {(pix im y x 0, y, x) | y x.
                 1 \<le> y \<and> y + 1 < shape_y im \<and> 1 \<le> x \<and> x + 1 < shape_x im \<and>
                 (\<forall>y' x'. (y' \<noteq> y \<or> x' \<noteq> x) \<and> y - 1 \<le> y' \<and> y' \<le> y + 1 \<and>
                          x - 1 \<le> x' \<and> x' \<le> x + 1 \<longrightarrow> pix im y' x' 0 < pix im y x 0) \<and>
                 t < pix im y x 0}"
    using is_peak_iff[of _ _ im t] by blast
  then show ?thesis
    using assms distinct_peak_scan[of im t]
    by (simp add: find_peaks_def set_py_sort_reverse set_peak_scan py_sort_reverse_desc)
qed

theorem find_peaks_descending_witness:
  "0 < shape_c im_two_peaks \<and>
   (\<exists>ps. find_peaks im_two_peaks 0 = Inr ps \<and> sorted_wrt (\<lambda>a b. a > b) ps)"
proof -
  have h: "0 < shape_c im_two_peaks" by (simp add: im_two_peaks_def)
  from find_peaks_descending[OF h, of 0] obtain ps where
    "find_peaks im_two_peaks 0 = Inr ps" "sorted_wrt (\<lambda>a b. a > b) ps" by blast
  with h show ?thesis by blast
qed

subsection \<open>Flood fill with threshold 0\<close>

lemma fill_neighbour_zero: "fill_neighbour conv vc v 0 st ts = st"
  by (simp add: fill_neighbour_def)

lemma fill_sweep_zero: "fill_sweep conv vc v 0 im edge = (im, [])"
proof -
  have p: "fill_pixel conv vc v 0 st yx = st" for st yx
    by (simp add: fill_pixel_def fill_neighbour_zero)
  have "foldl (fill_pixel conv vc v 0) st edge = st" for st
    by (induction edge arbitrary: st) (simp_all add: p)
  then show ?thesis by (simp add: fill_sweep_def)
qed

lemma fill_loop_zero: "fill_loop conv vc v 0 im edge = Some im"
  by (subst fill_loop.simps, subst fill_loop.simps) (simp add: fill_sweep_zero)

lemma fill_outline_zero:
  "0 \<le> y \<Longrightarrow> y < int (shape_y im) \<Longrightarrow> 0 \<le> x \<Longrightarrow> x < int (shape_x im) \<Longrightarrow>
   fill_outline conv im y x v 0 = Some (set_pixel im (nat y) (nat x) (conv v))"
  by (simp add: fill_outline_def fill_loop_zero)

text \<open>
  C2 (as stated): with threshold 0 and a seed inside the rectangle, \<^verbatim>\<open>fill_outline\<close>
  sets exactly the rectangle's pixels to the fill value.  This fails: the similarity test
  is the strict \<^verbatim>\<open>abs(...) < threshold\<close>, which no neighbour passes when the threshold is
  0.  Seeded at (3,4) with fill value 9, the call returns with the rectangle pixel (3,5)
  still at 7.
\<close>

theorem fill_outline_rect_counterexample:
  "\<exists>im'. fill_outline store_exact im_rect 3 4 9 0 = Some im' \<and> pix im' 3 4 0 = 9 \<and>
         pix im_rect 3 5 0 = 7 \<and> pix im' 3 5 0 = 7"
proof -
  have "fill_outline store_exact im_rect 3 4 9 0
          = Some (set_pixel im_rect (nat 3) (nat 4) (store_exact 9))"
    by (rule fill_outline_zero) (simp_all add: im_rect_def)
  then show ?thesis by (simp add: set_pixel_def im_rect_def store_exact_def)
qed

text \<open>
  C2 (amended): for every buffer (in particular the 10 by 10 buffer with a uniform
  rectangle), every seed inside the buffer and every fill value, \<^verbatim>\<open>fill_outline\<close> with
  threshold 0 returns with exactly the seed pixel set to the fill value (as the buffer
  stores it: unchanged when the element type of the buffer holds it) and every other
  pixel unchanged.
\<close>

theorem fill_outline_threshold_zero:
  assumes "0 \<le> y" "y < int (shape_y im)" "0 \<le> x" "x < int (shape_x im)"
  shows "\<exists>im'. fill_outline conv im y x v 0 = Some im' \<and>
           shape_y im' = shape_y im \<and> shape_x im' = shape_x im \<and> shape_c im' = shape_c im \<and>
           (\<forall>r c k. pix im' r c k = (if r = nat y \<and> c = nat x then conv v else pix im r c k))"
  using assms by (simp add: fill_outline_zero set_pixel_def)

theorem fill_outline_threshold_zero_witness:
  "(0::int) \<le> 3 \<and> 3 < int (shape_y im_rect) \<and> (0::int) \<le> 4 \<and> 4 < int (shape_x im_rect) \<and>
   (\<exists>im'. fill_outline store_exact im_rect 3 4 9 0 = Some im' \<and> pix im' 3 4 0 = 9 \<and>
          pix im' 2 3 0 = 7 \<and> pix im' 0 0 0 = 0)"
proof -
  have h: "(0::int) \<le> 3" "3 < int (shape_y im_rect)" "(0::int) \<le> 4" "4 < int (shape_x im_rect)"
    by (simp_all add: im_rect_def)
  from fill_outline_threshold_zero[OF h, where conv = store_exact and v = 9] obtain im' where
    r: "fill_outline store_exact im_rect 3 4 9 0 = Some im'"
    and p: "\<forall>r c k. pix im' r c k = (if r = nat 3 \<and> c = nat 4 then store_exact 9 else pix im_rect r c k)"
    by blast
  have "pix im' 3 4 0 = 9" "pix im' 2 3 0 = 7" "pix im' 0 0 0 = 0"
    using p by (simp_all add: im_rect_def store_exact_def)
  with r h show ?thesis by blast
qed

subsection \<open>Termination of the flood fill\<close>

lemma finite_fillable: "finite (fillable vc th im)"
proof -
  have "fillable vc th im \<subseteq> {..<shape_y im} \<times> {..<shape_x im}"
    by (auto simp: fillable_def)
  then show ?thesis by (rule finite_subset) simp
qed

lemma pixel_sum_set_pixel:
  "shape_c im = 1 \<Longrightarrow> pixel_sum (set_pixel im y x v) r c = (if r = y \<and> c = x then v else pixel_sum im r c)"
  by (simp add: pixel_sum_def set_pixel_def)

lemma fillable_set_pixel:
  assumes "shape_c im = 1" "\<not> \<bar>v - vc\<bar> < th"
  shows "fillable vc th (set_pixel im y x v) = fillable vc th im - {(y, x)}"
  using assms by (auto simp: fillable_def pixel_sum_set_pixel) (auto simp: set_pixel_def)

lemma fill_neighbour_measure:
  assumes "shape_c (fst st) = 1" "\<not> \<bar>conv v - vc\<bar> < th"
  shows "shape_c (fst (fill_neighbour conv vc v th st ts)) = 1 \<and>
         card (fillable vc th (fst (fill_neighbour conv vc v th st ts))) + length (snd (fill_neighbour conv vc v th st ts))
           = card (fillable vc th (fst st)) + length (snd st)"
proof (cases "snd ts \<ge> 0 \<and> snd ts < int (shape_x (fst st)) \<and>
         fst ts \<ge> 0 \<and> fst ts < int (shape_y (fst st)) \<and>
         \<bar>pixel_sum (fst st) (nat (fst ts)) (nat (snd ts)) - vc\<bar> < th")
  case True
  then have mem: "(nat (fst ts), nat (snd ts)) \<in> fillable vc th (fst st)"
    by (auto simp: fillable_def)
  have "card (fillable vc th (fst st) - {(nat (fst ts), nat (snd ts))}) + 1 = card (fillable vc th (fst st))"
    using mem finite_fillable[of vc th "fst st"]
    by (metis Suc_eq_plus1 card_Suc_Diff1)
  moreover have "fill_neighbour conv vc v th st ts =
      (set_pixel (fst st) (nat (fst ts)) (nat (snd ts)) (conv v), snd st @ [ts])"
    using True by (simp add: fill_neighbour_def)
  moreover have "shape_c (set_pixel (fst st) (nat (fst ts)) (nat (snd ts)) (conv v)) = 1"
    using assms by (simp add: set_pixel_def)
  ultimately show ?thesis
    using assms by (simp add: fillable_set_pixel)
next
  case False
  then have "fill_neighbour conv vc v th st ts = st"
    unfolding fill_neighbour_def by (rule if_not_P)
  with assms show ?thesis by simp
qed

lemma foldl_measure:
  assumes step: "\<And>st a. shape_c (fst st) = 1 \<Longrightarrow>
      shape_c (fst (f st a)) = 1 \<and>
      card (fillable vc th (fst (f st a))) + length (snd (f st a)) = card (fillable vc th (fst st)) + length (snd st)"
  shows "shape_c (fst st) = 1 \<Longrightarrow>
      shape_c (fst (foldl f st xs)) = 1 \<and>
      card (fillable vc th (fst (foldl f st xs))) + length (snd (foldl f st xs)) = card (fillable vc th (fst st)) + length (snd st)"
proof (induction xs arbitrary: st)
  case Nil
  then show ?case by simp
next
  case (Cons a xs)
  from step[OF Cons.prems, of a] Cons.IH[of "f st a"] show ?case by simp
qed

lemma fill_pixel_measure:
  assumes "shape_c (fst st) = 1" "\<not> \<bar>conv v - vc\<bar> < th"
  shows "shape_c (fst (fill_pixel conv vc v th st yx)) = 1 \<and>
         card (fillable vc th (fst (fill_pixel conv vc v th st yx))) + length (snd (fill_pixel conv vc v th st yx))
           = card (fillable vc th (fst st)) + length (snd st)"
  unfolding fill_pixel_def
  by (rule foldl_measure) (use assms fill_neighbour_measure in blast)+

lemma fill_sweep_measure:
  assumes "shape_c im = 1" "\<not> \<bar>conv v - vc\<bar> < th"
  shows "shape_c (fst (fill_sweep conv vc v th im edge)) = 1 \<and>
         card (fillable vc th (fst (fill_sweep conv vc v th im edge))) + length (snd (fill_sweep conv vc v th im edge))
           = card (fillable vc th im)"
proof -
  have step: "shape_c (fst (fill_pixel conv vc v th st a)) = 1 \<and>
       card (fillable vc th (fst (fill_pixel conv vc v th st a))) + length (snd (fill_pixel conv vc v th st a)) =
       card (fillable vc th (fst st)) + length (snd st)"
    if "shape_c (fst st) = 1" for st a
    using that assms(2) by (rule fill_pixel_measure)
  have init: "shape_c (fst (im, []::(int \<times> int) list)) = 1" using assms by simp
  from foldl_measure[of "fill_pixel conv vc v th" vc th "(im, [])" edge, OF step init]
  show ?thesis by (simp add: fill_sweep_def)
qed

lemma fill_loop_terminates:
  assumes "\<not> \<bar>conv v - vc\<bar> < th"
  shows "shape_c im = 1 \<Longrightarrow> \<exists>im'. fill_loop conv vc v th im edge = Some im'"
proof (induction "card (fillable vc th im)" arbitrary: im edge rule: less_induct)
  case less
  show ?case
  proof (cases "edge = []")
    case True
    then show ?thesis by (subst fill_loop.simps) simp
  next
    case False
    let ?im = "fst (fill_sweep conv vc v th im edge)"
    let ?ne = "snd (fill_sweep conv vc v th im edge)"
    from fill_sweep_measure[where conv = conv and v = v and vc = vc and th = th and im = im
        and edge = edge, OF less.prems assms]
    have c: "shape_c ?im = 1" and m: "card (fillable vc th ?im) + length ?ne = card (fillable vc th im)"
      by blast+
    have "\<exists>im'. fill_loop conv vc v th ?im ?ne = Some im'"
    proof (cases "?ne = []")
      case True
      then show ?thesis by (subst fill_loop.simps) simp
    next
      case False
      then have "card (fillable vc th ?im) < card (fillable vc th im)" using m by (cases ?ne) auto
      from less.hyps[OF this c] show ?thesis .
    qed
    with False show ?thesis by (subst fill_loop.simps) simp
  qed
qed









text \<open>
  When the buffer stores the fill value unchanged the proviso holds by the guard, so the
  fill of a single-channel buffer always returns.
\<close>

lemma fill_outline_exact_terminates:
  assumes "shape_c im = 1"
  shows "\<exists>im'. fill_outline store_exact im y x v threshold = Some im'"
proof -
  have "\<exists>im'. fill_loop store_exact (pixel_sum im (nat y) (nat x)) v threshold
                (set_pixel im (nat y) (nat x) (store_exact v)) [(y, x)] = Some im'"
    if "\<not> \<bar>pixel_sum im (nat y) (nat x) - v\<bar> < threshold"
  proof (rule fill_loop_terminates)
    from that show "\<not> \<bar>store_exact v - pixel_sum im (nat y) (nat x)\<bar> < threshold"
      by (simp add: store_exact_def abs_minus_commute)
    from assms show "shape_c (set_pixel im (nat y) (nat x) (store_exact v)) = 1"
      by (simp add: set_pixel_def)
  qed
  then show ?thesis by (auto simp: fill_outline_def)
qed

subsection \<open>Bresenham line: end points and reversal\<close>

lemma line_steep_sym: "line_steep y1 x1 y0 x0 = line_steep y0 x0 y1 x1"
  by (simp add: line_steep_def abs_minus_commute)

lemma line_ends_sym: "line_ends y1 x1 y0 x0 = line_ends y0 x0 y1 x1"
proof (cases "line_steep y0 x0 y1 x1")
  case True
  then have "y0 \<noteq> y1" by (auto simp: line_steep_def)
  with True show ?thesis
    by (auto simp: line_ends_def Let_def line_steep_sym)
next
  case False
  then have "x0 = x1 \<Longrightarrow> y0 = y1" by (auto simp: line_steep_def)
  with False show ?thesis
    by (auto simp: line_ends_def Let_def line_steep_sym)
qed

lemma draw_line_fast_writes_sym:
  "draw_line_fast_writes ny nx y1 x1 y0 x0 = draw_line_fast_writes ny nx y0 x0 y1 x1"
  by (simp add: draw_line_fast_writes_def line_ends_sym[of "py_int y1"] line_steep_sym[of "py_int y1"])

lemma draw_line_fast_loop_first:
  assumes "x \<le> x1"
    and "if steep then 0 \<le> x \<and> x < int ny \<and> 0 \<le> y \<and> y < int nx
         else 0 \<le> x \<and> x < int nx \<and> 0 \<le> y \<and> y < int ny"
  shows "(if steep then (nat x, nat y) else (nat y, nat x))
           \<in> set (draw_line_fast_loop ny nx steep x x1 y ystep e de)"
  using assms by (subst draw_line_fast_loop.simps) (auto split: if_splits)

lemma draw_line_fast_loop_last:
  assumes "x \<le> x1" "- 1 / 2 \<le> e" "e < 1 / 2" "0 \<le> de" "de \<le> 1" "ystep = 1 \<or> ystep = - 1"
    and "e + real_of_int (x1 - x) * de = real_of_int (ystep * (yt - y))"
    and "if steep then 0 \<le> x1 \<and> x1 < int ny \<and> 0 \<le> yt \<and> yt < int nx
         else 0 \<le> x1 \<and> x1 < int nx \<and> 0 \<le> yt \<and> yt < int ny"
  shows "(if steep then (nat x1, nat yt) else (nat yt, nat x1))
           \<in> set (draw_line_fast_loop ny nx steep x x1 y ystep e de)"
  using assms
proof (induction ny nx steep x x1 y ystep e de rule: draw_line_fast_loop.induct)
  case (1 ny nx steep x x1 y ystep e de)
  show ?case
  proof (cases "x = x1")
    case True
    with "1.prems" have "real_of_int (ystep * (yt - y)) = e" by simp
    with "1.prems" have "- 1 < real_of_int (ystep * (yt - y))" "real_of_int (ystep * (yt - y)) < 1"
      by linarith+
    then have "ystep * (yt - y) = 0" by linarith
    with "1.prems" have "yt = y" by auto
    moreover have "(if steep then (nat x, nat y) else (nat y, nat x))
           \<in> set (draw_line_fast_loop ny nx steep x x1 y ystep e de)"
      using True \<open>yt = y\<close> "1.prems"(1,8) by (intro draw_line_fast_loop_first) auto
    ultimately show ?thesis using True by (cases steep) simp_all
  next
    case False
    with "1.prems" have lt: "x + 1 \<le> x1" by simp
    have rem: "real_of_int (x1 - x) * de = real_of_int (x1 - (x + 1)) * de + de"
      by (simp add: algebra_simps)
    show ?thesis
    proof (cases "e + de \<ge> 1 / 2")
      case True
      have "e + de - 1 + real_of_int (x1 - (x + 1)) * de = real_of_int (ystep * (yt - (y + ystep)))"
        using "1.prems"(6,7) rem by (auto simp: algebra_simps)
      with "1.IH"(1)[OF _ True lt] "1.prems" True
      have "(if steep then (nat x1, nat yt) else (nat yt, nat x1))
           \<in> set (draw_line_fast_loop ny nx steep (x + 1) x1 (y + ystep) ystep (e + de - 1) de)"
        by simp
      with True "1.prems"(1) show ?thesis
        by (subst draw_line_fast_loop.simps) simp
    next
      case False
      have "e + de + real_of_int (x1 - (x + 1)) * de = real_of_int (ystep * (yt - y))"
        using "1.prems"(7) rem by (simp add: algebra_simps)
      with "1.IH"(2)[OF _ False lt] "1.prems" False
      have "(if steep then (nat x1, nat yt) else (nat yt, nat x1))
           \<in> set (draw_line_fast_loop ny nx steep (x + 1) x1 y ystep (e + de) de)"
        by simp
      with False "1.prems"(1) show ?thesis
        by (subst draw_line_fast_loop.simps) simp
    qed
  qed
qed


lemma draw_line_fast_writes_endpoints:
  assumes "0 \<le> y0" "y0 < int ny" "0 \<le> x0" "x0 < int nx"
    and "0 \<le> y1" "y1 < int ny" "0 \<le> x1" "x1 < int nx"
  shows "(nat y0, nat x0) \<in> set (draw_line_fast_writes ny nx (of_int y0) (of_int x0) (of_int y1) (of_int x1))"
proof -
  define steep where "steep = line_steep y0 x0 y1 x1"
  obtain ya xa yb xb where ends: "line_ends y0 x0 y1 x1 = (ya, xa, yb, xb)"
    by (metis prod_cases4)
  define ystep :: int where "ystep = (if ya < yb then 1 else - 1)"
  define de :: real where "de = (if real_of_int (xb - xa) = 0 then 10 ^ 30
             else real_of_int \<bar>yb - ya\<bar> / real_of_int (xb - xa))"
  have W: "draw_line_fast_writes ny nx (of_int y0) (of_int x0) (of_int y1) (of_int x1)
      = draw_line_fast_loop ny nx steep xa xb ya ystep 0 de"
    by (simp add: draw_line_fast_writes_def py_int_def ends steep_def ystep_def de_def)
  have le: "xa \<le> xb" and dy: "\<bar>yb - ya\<bar> \<le> xb - xa"
    using ends by (auto simp: line_ends_def Let_def line_steep_def split: if_splits)
  have pts: "(if steep then (xa, ya) else (ya, xa)) = (y0, x0) \<and> (if steep then (xb, yb) else (yb, xb)) = (y1, x1)
      \<or> (if steep then (xa, ya) else (ya, xa)) = (y1, x1) \<and> (if steep then (xb, yb) else (yb, xb)) = (y0, x0)"
    using ends by (auto simp: line_ends_def Let_def steep_def split: if_splits)
  have inb_a: "if steep then 0 \<le> xa \<and> xa < int ny \<and> 0 \<le> ya \<and> ya < int nx
         else 0 \<le> xa \<and> xa < int nx \<and> 0 \<le> ya \<and> ya < int ny"
    using pts assms by (auto split: if_splits)
  have inb_b: "if steep then 0 \<le> xb \<and> xb < int ny \<and> 0 \<le> yb \<and> yb < int nx
         else 0 \<le> xb \<and> xb < int nx \<and> 0 \<le> yb \<and> yb < int ny"
    using pts assms by (auto split: if_splits)
  have first: "(if steep then (nat xa, nat ya) else (nat ya, nat xa))
       \<in> set (draw_line_fast_loop ny nx steep xa xb ya ystep 0 de)"
    using le inb_a by (rule draw_line_fast_loop_first)
  have last: "(if steep then (nat xb, nat yb) else (nat yb, nat xb))
       \<in> set (draw_line_fast_loop ny nx steep xa xb ya ystep 0 de)"
  proof (cases "xa = xb")
    case True
    with dy have "ya = yb" by simp
    with True first show ?thesis by (cases steep) simp_all
  next
    case False
    with le have pos: "0 < real_of_int (xb - xa)" by simp
    then have de: "de = real_of_int \<bar>yb - ya\<bar> / real_of_int (xb - xa)" by (simp add: de_def)
    have de0: "0 \<le> de" unfolding de using pos by simp
    have de1: "de \<le> 1" unfolding de using pos dy by simp
    have "real_of_int (xb - xa) * de = real_of_int \<bar>yb - ya\<bar>" unfolding de using pos by simp
    also have "\<bar>yb - ya\<bar> = ystep * (yb - ya)" by (simp add: ystep_def)
    finally have inv: "0 + real_of_int (xb - xa) * de = real_of_int (ystep * (yb - ya))" by simp
    show ?thesis
      by (rule draw_line_fast_loop_last[OF le _ _ de0 de1 _ inv inb_b]) (simp_all add: ystep_def)
  qed
  from pts first last show ?thesis unfolding W by (auto split: if_splits)
qed

lemma foldl_set_pixel:
  "pix (foldl (\<lambda>im' p. set_pixel im' (fst p) (snd p) v) im ps) r c k =
     (if (r, c) \<in> set ps then v else pix im r c k)"
proof (induction ps arbitrary: im)
  case Nil
  then show ?case by simp
next
  case (Cons p ps)
  have "pix (foldl (\<lambda>im' p. set_pixel im' (fst p) (snd p) v) (set_pixel im (fst p) (snd p) v) ps) r c k =
     (if (r, c) \<in> set ps then v else pix (set_pixel im (fst p) (snd p) v) r c k)"
    by (rule Cons.IH)
  then show ?case by (cases p) (auto simp: set_pixel_def)
qed

text \<open>
  C8: for every pair of integer end points inside the buffer, \<^verbatim>\<open>draw_line_fast\<close> writes
  both end points (they hold the value \<^verbatim>\<open>v\<close> afterwards), and exchanging the two end
  points gives the identical set of written pixels, hence the same image.
\<close>

theorem draw_line_fast_symmetric:
  assumes "0 \<le> y0" "y0 < int (shape_y im)" "0 \<le> x0" "x0 < int (shape_x im)"
    and "0 \<le> y1" "y1 < int (shape_y im)" "0 \<le> x1" "x1 < int (shape_x im)"
  shows "(nat y0, nat x0) \<in> set (draw_line_fast_writes (shape_y im) (shape_x im)
                                   (of_int y0) (of_int x0) (of_int y1) (of_int x1)) \<and>
         (nat y1, nat x1) \<in> set (draw_line_fast_writes (shape_y im) (shape_x im)
                                   (of_int y0) (of_int x0) (of_int y1) (of_int x1)) \<and>
         set (draw_line_fast_writes (shape_y im) (shape_x im)
                (of_int y1) (of_int x1) (of_int y0) (of_int x0)) =
         set (draw_line_fast_writes (shape_y im) (shape_x im)
                (of_int y0) (of_int x0) (of_int y1) (of_int x1)) \<and>
         draw_line_fast im (of_int y1) (of_int x1) (of_int y0) (of_int x0) v =
         draw_line_fast im (of_int y0) (of_int x0) (of_int y1) (of_int x1) v \<and>
         pix (draw_line_fast im (of_int y0) (of_int x0) (of_int y1) (of_int x1) v) (nat y0) (nat x0) k = v \<and>
         pix (draw_line_fast im (of_int y0) (of_int x0) (of_int y1) (of_int x1) v) (nat y1) (nat x1) k = v"
  using draw_line_fast_writes_endpoints[OF assms]
    draw_line_fast_writes_endpoints[OF assms(5-8) assms(1-4)]
  by (simp add: draw_line_fast_def foldl_set_pixel
      draw_line_fast_writes_sym[of "shape_y im" "shape_x im" "of_int y1"])

theorem draw_line_fast_symmetric_witness:
  "(0::int) \<le> 0 \<and> 0 < int (shape_y im_zero5) \<and> 0 < int (shape_x im_zero5) \<and>
   (0::int) \<le> 2 \<and> 2 < int (shape_y im_zero5) \<and> (0::int) \<le> 4 \<and> 4 < int (shape_x im_zero5) \<and>
   (nat 2, nat 4) \<in> set (draw_line_fast_writes (shape_y im_zero5) (shape_x im_zero5)
                              (of_int 0) (of_int 0) (of_int 2) (of_int 4)) \<and>
   pix (draw_line_fast im_zero5 (of_int 0) (of_int 0) (of_int 2) (of_int 4) 1) (nat 2) (nat 4) 0 = 1"
proof -
  have h: "(0::int) \<le> 0" "0 < int (shape_y im_zero5)" "(0::int) \<le> 0" "0 < int (shape_x im_zero5)"
    "(0::int) \<le> 2" "2 < int (shape_y im_zero5)" "(0::int) \<le> 4" "4 < int (shape_x im_zero5)"
    by (simp_all add: im_zero5_def)
  from draw_line_fast_symmetric[OF h, of 1 0] h show ?thesis by blast
qed

subsection \<open>Interior columns of the anti-aliased line\<close>

lemma py_frac_less_1: "py_frac r < 1"
  unfolding py_frac_def py_int_def by (cases "0 \<le> r") (simp_all, linarith+)

lemma py_frac_nonneg_iff: "0 \<le> py_frac r \<longleftrightarrow> 0 \<le> r \<or> r \<in> \<int>"
proof (cases "0 \<le> r")
  case True
  then show ?thesis by (simp add: py_frac_def py_int_def)
next
  case False
  have "r - real_of_int \<lceil>r\<rceil> \<ge> 0 \<longleftrightarrow> r \<in> \<int>"
  proof
    assume "r - real_of_int \<lceil>r\<rceil> \<ge> 0"
    then have "real_of_int \<lceil>r\<rceil> = r" using le_of_int_ceiling[of r] by linarith
    then show "r \<in> \<int>" by (metis Ints_of_int)
  next
    assume "r \<in> \<int>"
    then show "r - real_of_int \<lceil>r\<rceil> \<ge> 0" by (auto elim!: Ints_cases)
  qed
  with False show ?thesis by (simp add: py_frac_def py_int_def)
qed

lemma py_int_floor: "0 \<le> py_frac r \<Longrightarrow> py_int r = \<lfloor>r\<rfloor>"
  unfolding py_frac_nonneg_iff by (auto simp: py_int_def elim!: Ints_cases)

lemma py_frac_frac: "0 \<le> py_frac r \<Longrightarrow> py_frac r = frac r"
  using py_int_floor[of r] by (simp add: py_frac_def frac_def)

lemma interior_calls_Suc:
  "interior_calls steep x intery de (Suc n) =
     [(wu_pos steep x \<lfloor>intery\<rfloor>, sqrt (1 - frac intery)),
      (wu_pos steep x (\<lfloor>intery\<rfloor> + 1), sqrt (frac intery))] @
     interior_calls steep (x + 1) (intery + de) de n"
proof -
  have "[0..<Suc n] = 0 # map Suc [0..<n]"
    by (simp add: upt_conv_Cons map_Suc_upt del: upt_Suc)
  then show ?thesis
    by (simp add: interior_calls_def comp_def algebra_simps del: upt_Suc)
qed

lemma draw_line_loop_closed:
  assumes "\<forall>k < n. 0 \<le> intery + real k * de \<or> intery + real k * de \<in> \<int>"
    and "n = nat (xpxl2 - x)"
  shows "draw_line_loop steep x xpxl2 intery de = (interior_calls steep x intery de n, None)"
  using assms
proof (induction n arbitrary: x intery)
  case 0
  then show ?case by (subst draw_line_loop.simps) (simp add: interior_calls_def)
next
  case (Suc n)
  from Suc.prems have lt: "x < xpxl2" and n: "n = nat (xpxl2 - (x + 1))" by linarith+
  from Suc.prems(1) have "0 \<le> intery + real 0 * de \<or> intery + real 0 * de \<in> \<int>" by blast
  then have f0: "0 \<le> py_frac intery" by (simp add: py_frac_nonneg_iff)
  have "\<forall>k<n. 0 \<le> intery + de + real k * de \<or> intery + de + real k * de \<in> \<int>"
  proof (intro allI impI)
    fix k assume "k < n"
    then have "0 \<le> intery + real (Suc k) * de \<or> intery + real (Suc k) * de \<in> \<int>"
      using Suc.prems(1) by (meson Suc_less_eq)
    then show "0 \<le> intery + de + real k * de \<or> intery + de + real k * de \<in> \<int>"
      by (simp add: algebra_simps)
  qed
  from Suc.IH[OF this n]
  have rest: "draw_line_loop steep (x + 1) xpxl2 (intery + de) de = (interior_calls steep (x + 1) (intery + de) de n, None)" .
  have f1: "\<not> 1 < py_frac intery" using py_frac_less_1[of intery] by simp
  have f2: "\<not> py_frac intery < 0" using f0 by simp
  show ?case
    by (subst draw_line_loop.simps)
      (simp add: lt f1 f2 rest interior_calls_Suc Let_def,
        simp add: py_int_floor[OF f0] py_frac_frac[OF f0])
qed

lemma sqrt_half: "sqrt (1 / 2) \<noteq> 1 - frac (1 / 2 :: real)"
proof
  assume "sqrt (1 / 2) = 1 - frac (1 / 2 :: real)"
  then have a: "sqrt (1 / 2) = 1 / 2" by (simp add: frac_def)
  have b: "(sqrt (1 / 2))\<^sup>2 = (1 / 2 :: real)" by (rule real_sqrt_pow2) simp
  have "((1 / 2)\<^sup>2 :: real) = 1 / 2" using b unfolding a .
  then show False by (simp add: power2_eq_square)
qed

text \<open>
  C5 (as stated): the interior pixel pairs are blended with the opacities
  \<open>1 - frac intery\<close> and \<open>frac intery\<close>.  This fails: for the line from (0,0) to (2,4)
  the slope is 1/2, the intersection at column 1 is 1/2, and the two calls for that
  column carry the opacity \<open>sqrt (1/2)\<close>, not 1/2.
\<close>

theorem draw_line_opacity_counterexample:
  "draw_line_calls 0 0 2 4 =
     ([((0, 0), 1), ((1, 0), 0), ((2, 4), 1), ((3, 4), 0),
       ((0, 1), sqrt (1 / 2)), ((1, 1), sqrt (1 / 2)), ((1, 2), 1),
       ((2, 2), 0), ((1, 3), sqrt (1 / 2)), ((2, 3), sqrt (1 / 2))], None) \<and>
   sqrt (1 / 2) \<noteq> 1 - frac (1 / 2 :: real)"
proof
  show "draw_line_calls 0 0 2 4 =
     ([((0, 0), 1), ((1, 0), 0), ((2, 4), 1), ((3, 4), 0),
       ((0, 1), sqrt (1 / 2)), ((1, 1), sqrt (1 / 2)), ((1, 2), 1),
       ((2, 2), 0), ((1, 3), sqrt (1 / 2)), ((2, 3), sqrt (1 / 2))], None)"
    by (simp add: draw_line_calls_def line_ends_def line_steep_def Let_def wu_slope_def wu_xpxl_def
        wu_yend_def wu_end_calls_def wu_pos_def py_int_def py_frac_def draw_line_loop.simps)
  show "sqrt (1 / 2) \<noteq> 1 - frac (1 / 2 :: real)" by (rule sqrt_half)
qed

text \<open>
  C5 (amended): in the anti-aliased line drawer, when no interior intersection is a
  negative non-integer, the calls are those of the two end points followed, for every
  interior column counted by \<open>k\<close> from \<open>xpxl1 + 1\<close>, by the pair at rows \<open>\<lfloor>intery\<rfloor>\<close> and
  \<open>\<lfloor>intery\<rfloor> + 1\<close> (columns if steep) with the opacities \<open>sqrt (1 - frac intery)\<close> and
  \<open>sqrt (frac intery)\<close>, where \<open>intery\<close> starts one slope \<open>de\<close> after the first end point and
  advances by \<open>de\<close> at each step; and no exception is raised by the loop.
\<close>

theorem draw_line_interior:
  assumes "line_ends y0 x0 y1 x1 = (ya, xa, yb, xb)"
    and "de = wu_slope ya xa yb xb"
    and "intery = wu_yend ya xa de + de"
    and "n = nat (wu_xpxl xb - (wu_xpxl xa + 1))"
    and "\<forall>k < n. 0 \<le> intery + real k * de \<or> intery + real k * de \<in> \<int>"
  shows "draw_line_calls y0 x0 y1 x1 =
           (wu_end_calls (line_steep y0 x0 y1 x1) (wu_xpxl xa) (wu_yend ya xa de) @
            wu_end_calls (line_steep y0 x0 y1 x1) (wu_xpxl xb) (wu_yend yb xb de) @
            interior_calls (line_steep y0 x0 y1 x1) (wu_xpxl xa + 1) intery de n,
            None)"
  using draw_line_loop_closed[OF assms(5,4), of "line_steep y0 x0 y1 x1"] assms(1,2,3)
  by (simp add: draw_line_calls_def Let_def)

theorem draw_line_interior_witness:
  "line_ends (0::real) 0 2 4 = (0, 0, 2, 4) \<and> wu_slope 0 0 2 4 = 1 / 2 \<and>
   wu_yend 0 0 (1 / 2) + 1 / 2 = 1 / 2 \<and> nat (wu_xpxl 4 - (wu_xpxl 0 + 1)) = 3 \<and>
   draw_line_calls 0 0 2 4 =
     (wu_end_calls (line_steep (0::real) 0 2 4) (wu_xpxl 0) (wu_yend 0 0 (1 / 2)) @
      wu_end_calls (line_steep (0::real) 0 2 4) (wu_xpxl 4) (wu_yend 2 4 (1 / 2)) @
      interior_calls (line_steep (0::real) 0 2 4) (wu_xpxl 0 + 1) (1 / 2) (1 / 2) 3, None)"
proof -
  have h1: "line_ends (0::real) 0 2 4 = (0, 0, 2, 4)"
    by (simp add: line_ends_def line_steep_def)
  have h2: "1 / 2 = wu_slope 0 0 2 4" by (simp add: wu_slope_def)
  have h3: "1 / 2 = wu_yend 0 0 (1 / 2) + 1 / 2" by (simp add: wu_yend_def py_int_def)
  have h4: "3 = nat (wu_xpxl 4 - (wu_xpxl 0 + 1))" by (simp add: wu_xpxl_def py_int_def)
  have h5: "\<forall>k < 3. 0 \<le> 1 / 2 + real k * (1 / 2) \<or> 1 / 2 + real k * (1 / 2) \<in> \<int>" by simp
  from draw_line_interior[OF h1 h2 h3 h4 h5] h1 h2[symmetric] h3[symmetric] h4[symmetric]
  show ?thesis by simp
qed

text \<open>
  A line whose rows are all above the image is not skipped silently: the intersection
  -7/4 at column 1 has a negative part cut off, and \<^verbatim>\<open>math.sqrt\<close> raises.
\<close>

lemma draw_line_negative_rows_raise:
  "draw_line \<lparr>shape_y = 5, shape_x = 5, shape_c = 1, pix = (\<lambda>y x c. 0)\<rparr> (- 2) 0 (- 1) 4 (Scalar 1)
     = Inl ValueError"
  by (simp add: draw_line_def draw_line_calls_def line_ends_def line_steep_def Let_def wu_slope_def
      wu_xpxl_def wu_yend_def wu_end_calls_def wu_pos_def py_int_def py_frac_def
      draw_line_loop.simps blend_pixel_def)

subsection \<open>Nearest-neighbour extraction\<close>

lemma extract_start_example: "extract_start (Suc 0) (Suc 0) (5 / 4) (5 / 4) 1 1 0 = (3 / 4, 3 / 4)"
  by (simp add: extract_start_def)

lemma extract_sample_example:
  "extract_sample im_ramp3 im_ramp3 (Suc 0) False 0 (3 / 4) (3 / 4) = Inr (\<lambda>k. pix im_ramp3 0 0 k)"
  by (simp add: extract_sample_def py_int_def im_ramp3_def Let_def)

text \<open>
  C6: in the general path with the mode \<^verbatim>\<open>'nearest'\<close>, an in-bounds output pixel is the
  source pixel at the integer coordinates closest to the sample position.  The code
  truncates instead: extracting a 1 by 1 region centred at (5/4, 5/4) from a 3 by 3 image
  samples at (3/4, 3/4), whose closest integer coordinates are (1,1), and the output is
  the source pixel (0,0).
\<close>

theorem extract_nearest_truncates:
  "extract_start 1 1 (5 / 4) (5 / 4) 1 1 0 = (3 / 4, 3 / 4) \<and>
   round (3 / 4 :: real) = 1 \<and>
   (\<exists>region d. extract_region im_ramp3 1 1 (5 / 4) (5 / 4) 1 1 0 False 0 ''nearest'' = Inr (region, d) \<and>
      pix region 0 0 0 = pix im_ramp3 0 0 0 \<and>
      pix region 0 0 0 \<noteq> pix im_ramp3 1 1 0)"
proof -
  have "\<exists>region d. extract_region im_ramp3 1 1 (5 / 4) (5 / 4) 1 1 0 False 0 ''nearest'' = Inr (region, d) \<and>
      pix region 0 0 0 = pix im_ramp3 0 0 0"
    by (simp add: extract_region_def extract_start_example tiny_def py_int_def interp_code_def
        extract_line_def extract_pixel_def extract_sample_example Let_def set_pixel_vec_def)
  moreover have "pix im_ramp3 0 0 0 \<noteq> pix im_ramp3 1 1 0" by (simp add: im_ramp3_def)
  moreover have "round (3 / 4 :: real) = 1" by (simp add: round_def)
  moreover have "extract_start 1 1 (5 / 4) (5 / 4) 1 1 0 = (3 / 4, 3 / 4)"
    using extract_start_example by simp
  ultimately show ?thesis by auto
qed

subsection \<open>The equivalence table of the region labeller\<close>

lemma merge_equiv_ok:
  assumes "equiv_ok eq" "lv \<le> v" "v < length eq"
  shows "\<exists>eq'. merge_equiv lv eq v = Inr eq' \<and> length eq' = length eq \<and> equiv_ok eq'"
proof -
  from assms have lvl: "lv < length eq" by simp
  from assms(1,3) have "eq ! v \<le> v" by (simp add: equiv_ok_def)
  show ?thesis
  proof (cases "eq ! v > lv")
    case True
    have "equiv_ok (eq[v := lv])"
      using assms by (auto simp: equiv_ok_def nth_list_update)
    with True assms show ?thesis by (simp add: merge_equiv_def)
  next
    case False
    show ?thesis
    proof (cases "lv > eq ! v")
      case True
      have "equiv_ok (eq[lv := eq ! v])"
        using assms True by (auto simp: equiv_ok_def nth_list_update)
      with True False assms lvl show ?thesis by (simp add: merge_equiv_def)
    next
      case F2: False
      with False assms show ?thesis by (simp add: merge_equiv_def)
    qed
  qed
qed

lemma fold_merge_ok:
  assumes "equiv_ok eq" "\<forall>v \<in> set vs. lv \<le> v \<and> v < length eq"
  shows "\<exists>eq'. fold_err (merge_equiv lv) eq vs = Inr eq' \<and> length eq' = length eq \<and> equiv_ok eq'"
  using assms
proof (induction vs arbitrary: eq)
  case Nil
  then show ?case by simp
next
  case (Cons v vs)
  then obtain eq1 where m: "merge_equiv lv eq v = Inr eq1" "length eq1 = length eq" "equiv_ok eq1"
    using merge_equiv_ok[of eq lv v] by auto
  from Cons.prems m have "\<forall>v \<in> set vs. lv \<le> v \<and> v < length eq1" by simp
  from Cons.IH[OF m(3) this] m show ?case by auto
qed

lemma new_label_inv:
  assumes "label_inv st"
  shows "label_inv (new_label st)"
  using assms
  by (auto simp: label_inv_def new_label_def equiv_ok_def nth_append le_SucI)

lemma set_label_inv:
  assumes "label_inv st" "v \<le> lastlabel st"
  shows "label_inv (st\<lparr>lab := set_label (lab st) y x v\<rparr>)"
  using assms by (auto simp: label_inv_def set_label_def)

lemma sorted_hd_le_tl: "sorted xs \<Longrightarrow> v \<in> set (tl xs) \<Longrightarrow> hd xs \<le> v"
  by (cases xs) auto

lemma label_step_inv:
  assumes "label_inv st"
  shows "\<exists>st'. label_step im con8 st s = Inr st' \<and> label_inv st'"
proof (cases s)
  case (FirstRow x)
  show ?thesis
  proof (cases "pix im 0 x 0 \<noteq> pix im 0 (x - 1) 0")
    case True
    with FirstRow set_label_inv[OF new_label_inv[OF assms], of "lastlabel (new_label st)" 0 x]
    show ?thesis by (simp add: Let_def)
  next
    case False
    with FirstRow set_label_inv[OF assms, of "lastlabel st" 0 x]
    show ?thesis by (simp add: Let_def)
  qed
next
  case (FirstCol y)
  show ?thesis
  proof (cases "pix im y 0 0 = pix im (y - 1) 0 0")
    case True
    from assms have "pix (lab st) (y - 1) 0 0 \<le> lastlabel st" by (simp add: label_inv_def)
    from set_label_inv[OF assms this, of y 0] True FirstCol show ?thesis by simp
  next
    case False
    with FirstCol set_label_inv[OF new_label_inv[OF assms], of "lastlabel (new_label st)" y 0]
    show ?thesis by (simp add: Let_def)
  qed
next
  case (Rest y x)
  define nbrs where "nbrs = neighbours im (lab st) con8 y x"
  define val where "val = pix im y x 0"
  show ?thesis
  proof (cases "list_ex (\<lambda>p. val = fst p) nbrs")
    case False
    with Rest set_label_inv[OF new_label_inv[OF assms], of "lastlabel (new_label st)" y x]
    show ?thesis by (simp add: Let_def nbrs_def val_def)
  next
    case True
    define matches where "matches = sort (map snd (filter (\<lambda>p. val = fst p) nbrs))"
    have lab_le: "l \<le> lastlabel st" if "l \<in> snd ` set nbrs" for l
      using that assms unfolding nbrs_def neighbours_def label_inv_def
      by (auto simp: Let_def split: if_splits)
    have mset: "set matches \<subseteq> snd ` set nbrs" by (auto simp: matches_def)
    from True have "filter (\<lambda>p. val = fst p) nbrs \<noteq> []"
      by (auto simp: list_ex_iff filter_empty_conv)
    then have "length matches \<noteq> 0" by (simp add: matches_def)
    then have ne: "matches \<noteq> []" by simp
    then have hdm: "hd matches \<in> set matches" by simp
    have len: "length (equiv st) = lastlabel st + 1" and ok: "equiv_ok (equiv st)"
      using assms by (simp_all add: label_inv_def)
    have "\<forall>v \<in> set (tl matches). hd matches \<le> v \<and> v < length (equiv st)"
    proof
      fix v assume v: "v \<in> set (tl matches)"
      then have "v \<in> set matches" using ne by (meson list.set_sel(2))
      with mset lab_le len have "v < length (equiv st)" by fastforce
      moreover have "hd matches \<le> v"
        using v by (intro sorted_hd_le_tl) (simp_all add: matches_def)
      ultimately show "hd matches \<le> v \<and> v < length (equiv st)" by simp
    qed
    from fold_merge_ok[OF ok this] obtain eq' where
      f: "fold_err (merge_equiv (hd matches)) (equiv st) (tl matches) = Inr eq'"
      and l': "length eq' = length (equiv st)" and ok': "equiv_ok eq'" by blast
    from hdm mset lab_le have hl: "hd matches \<le> lastlabel st" by fastforce
    have "label_inv (st\<lparr>equiv := eq', lab := set_label (lab st) y x (hd matches)\<rparr>)"
      using assms l' ok' hl by (auto simp: label_inv_def set_label_def)
    with True Rest f show ?thesis
      by (simp add: Let_def nbrs_def[symmetric] val_def[symmetric] matches_def[symmetric])
  qed
qed

lemma raster_inv:
  assumes "label_inv st"
  shows "\<exists>st'. fold_err (label_step im con8) st steps = Inr st' \<and> label_inv st'"
  using assms
proof (induction steps arbitrary: st)
  case Nil
  then show ?case by simp
next
  case (Cons s steps)
  from label_step_inv[OF Cons.prems, of im con8 s] obtain st1 where
    "label_step im con8 st s = Inr st1" "label_inv st1" by blast
  with Cons.IH[of st1] show ?case by simp
qed

lemma label_init_inv: "label_inv (label_init im)"
  by (simp add: label_inv_def label_init_def equiv_ok_def)

lemma find_root_ok:
  assumes "equiv_ok eq"
  shows "l < length eq \<Longrightarrow> \<exists>r. find_root eq l = Some (Inr r) \<and> r \<le> l \<and> eq ! r = r"
proof (induction l rule: less_induct)
  case (less l)
  show ?case
  proof (cases "eq ! l = l")
    case True
    with less.prems show ?thesis by (subst find_root.simps) simp
  next
    case False
    with assms less.prems have lt: "eq ! l < l" by (simp add: equiv_ok_def le_neq_implies_less)
    with less.prems have "eq ! l < length eq" by simp
    from less.IH[OF lt this] obtain r where
      "find_root eq (eq ! l) = Some (Inr r)" "r \<le> eq ! l" "eq ! r = r" by blast
    with False less.prems lt show ?thesis by (subst find_root.simps) auto
  qed
qed


lemma fold_opt_err_snoc:
  "fold_opt_err f s (xs @ [a]) =
     (case fold_opt_err f s xs of
        None \<Rightarrow> None
      | Some (Inl e) \<Rightarrow> Some (Inl e)
      | Some (Inr s') \<Rightarrow>
          (case f s' a of None \<Rightarrow> None | Some (Inl e) \<Rightarrow> Some (Inl e) | Some (Inr s'') \<Rightarrow> Some (Inr s'')))"
  by (induction xs arbitrary: s) (auto split: option.splits sum.splits)

lemma finite_roots_below: "finite (roots_below eq i)"
  by (simp add: roots_below_def)

lemma roots_below_Suc:
  "roots_below eq (Suc i) = (if eq ! i = i then insert i (roots_below eq i) else roots_below eq i)"
  by (auto simp: roots_below_def less_Suc_eq)

lemma card_roots_below_Suc:
  "card (roots_below eq (Suc i)) = (if eq ! i = i then Suc (card (roots_below eq i)) else card (roots_below eq i))"
proof -
  have "i \<notin> roots_below eq i" by (simp add: roots_below_def)
  then show ?thesis by (simp add: roots_below_Suc finite_roots_below)
qed

lemma card_roots_below_mono:
  assumes "r < r'" "eq ! r = r"
  shows "card (roots_below eq r) < card (roots_below eq r')"
proof (rule psubset_card_mono)
  show "finite (roots_below eq r')" by (rule finite_roots_below)
  from assms show "roots_below eq r \<subset> roots_below eq r'"
    by (auto simp: roots_below_def)
qed

lemma tidy_step_inv:
  assumes ok: "equiv_ok eq" and i: "i < length eq" and inv: "tidy_inv eq i st"
  shows "\<exists>st'. tidy_step eq st i = Some (Inr st') \<and> tidy_inv eq (Suc i) st'"
proof (cases "eq ! i = i")
  case True
  let ?rm = "fst st @ [nat (snd st + 1)]"
  from inv have len: "length (fst st) = i" and nc: "nat (snd st + 1) = card (roots_below eq i)"
    by (simp_all add: tidy_inv_def)
  have fr: "find_root eq i = Some (Inr i)"
    using True i by (subst find_root.simps) simp
  have "tidy_inv eq (Suc i) (?rm, snd st + 1)"
    unfolding tidy_inv_def
  proof (intro conjI allI impI)
    show "length (fst (?rm, snd st + 1)) = Suc i" using len by simp
    show "snd (?rm, snd st + 1) = int (card (roots_below eq (Suc i))) - 1"
      using inv True by (simp add: tidy_inv_def card_roots_below_Suc)
    show "fst (?rm, snd st + 1) ! r = card (roots_below eq r)" if "r < Suc i" "eq ! r = r" for r
      using that inv len nc by (cases "r = i") (auto simp: tidy_inv_def nth_append)
    show "fst (?rm, snd st + 1) ! j = fst (?rm, snd st + 1) ! r"
      if "j < Suc i" "find_root eq j = Some (Inr r)" for j r
    proof (cases "j = i")
      case True
      with that fr show ?thesis by simp
    next
      case False
      with that have j: "j < i" by simp
      with i ok obtain r' where "find_root eq j = Some (Inr r')" "r' \<le> j"
        using find_root_ok[of eq j] by auto
      with that have "r < i" using j by simp
      with j that inv len show ?thesis by (simp add: tidy_inv_def nth_append)
    qed
    show "set (fst (?rm, snd st + 1)) = {0..<card (roots_below eq (Suc i))}"
      using inv True nc by (auto simp: tidy_inv_def card_roots_below_Suc)
  qed
  with True show ?thesis by (simp add: tidy_step_def)
next
  case False
  from find_root_ok[OF ok i] obtain r where
    fr: "find_root eq i = Some (Inr r)" and rle: "r \<le> i" and rr: "eq ! r = r" by blast
  with False have rlt: "r < i" by (cases "r = i") auto
  from inv have len: "length (fst st) = i" by (simp add: tidy_inv_def)
  let ?rm = "fst st @ [fst st ! r]"
  have "tidy_inv eq (Suc i) (?rm, snd st)"
    unfolding tidy_inv_def
  proof (intro conjI allI impI)
    show "length (fst (?rm, snd st)) = Suc i" using len by simp
    show "snd (?rm, snd st) = int (card (roots_below eq (Suc i))) - 1"
      using inv False by (simp add: tidy_inv_def card_roots_below_Suc)
    show "fst (?rm, snd st) ! r' = card (roots_below eq r')" if "r' < Suc i" "eq ! r' = r'" for r'
    proof -
      from that False have "r' < i" by (cases "r' = i") auto
      with that inv len show ?thesis by (simp add: tidy_inv_def nth_append)
    qed
    show "fst (?rm, snd st) ! j = fst (?rm, snd st) ! r'"
      if "j < Suc i" "find_root eq j = Some (Inr r')" for j r'
    proof (cases "j = i")
      case True
      with that fr have "r' = r" by simp
      with True rlt len show ?thesis by (simp add: nth_append)
    next
      case F: False
      with that have j: "j < i" by simp
      with i ok obtain r'' where "find_root eq j = Some (Inr r'')" "r'' \<le> j"
        using find_root_ok[of eq j] by auto
      with that have "r' < i" using j by simp
      with j that inv len show ?thesis by (simp add: tidy_inv_def nth_append)
    qed
    show "set (fst (?rm, snd st)) = {0..<card (roots_below eq (Suc i))}"
    proof -
      from rlt len have "fst st ! r \<in> set (fst st)" by simp
      with inv False show ?thesis by (auto simp: tidy_inv_def card_roots_below_Suc)
    qed
  qed
  with False fr rlt len show ?thesis by (simp add: tidy_step_def)
qed

lemma tidy_prefix:
  assumes ok: "equiv_ok eq"
  shows "i \<le> length eq \<Longrightarrow>
     \<exists>st. fold_opt_err (tidy_step eq) ([], - 1) [0..<i] = Some (Inr st) \<and> tidy_inv eq i st"
proof (induction i)
  case 0
  show ?case by (simp add: tidy_inv_def roots_below_def)
next
  case (Suc i)
  then obtain st where f: "fold_opt_err (tidy_step eq) ([], - 1) [0..<i] = Some (Inr st)"
    and inv: "tidy_inv eq i st" by auto
  from Suc.prems have "i < length eq" by simp
  from tidy_step_inv[OF ok this inv] obtain st' where
    "tidy_step eq st i = Some (Inr st')" "tidy_inv eq (Suc i) st'" by blast
  with f show ?case by (simp add: fold_opt_err_snoc)
qed

lemma tidy_dense:
  assumes ok: "equiv_ok eq"
  shows "\<exists>remap nc. tidy eq = Some (Inr (remap, nc)) \<and> length remap = length eq \<and>
           bij_betw (\<lambda>r. remap ! r) {r. r < length eq \<and> eq ! r = r}
                    {0..<card {r. r < length eq \<and> eq ! r = r}} \<and>
           (\<forall>l < length eq. \<forall>r. find_root eq l = Some (Inr r) \<longrightarrow> remap ! l = remap ! r)"
proof -
  let ?R = "{r. r < length eq \<and> eq ! r = r}"
  have R: "?R = roots_below eq (length eq)" by (simp add: roots_below_def)
  from tidy_prefix[OF ok le_refl] obtain st where
    t: "tidy eq = Some (Inr st)" and inv: "tidy_inv eq (length eq) st"
    by (auto simp: tidy_def)
  obtain remap nc where st: "st = (remap, nc)" by (cases st)
  from inv st have len: "length remap = length eq"
    and val: "\<And>r. r < length eq \<Longrightarrow> eq ! r = r \<Longrightarrow> remap ! r = card (roots_below eq r)"
    and root: "\<forall>l < length eq. \<forall>r. find_root eq l = Some (Inr r) \<longrightarrow> remap ! l = remap ! r"
    and set: "set remap = {0..<card ?R}"
    by (simp_all add: tidy_inv_def R)
  have inj: "inj_on (\<lambda>r. remap ! r) ?R"
  proof (rule inj_onI)
    fix r r' assume a: "r \<in> ?R" "r' \<in> ?R" "remap ! r = remap ! r'"
    then have e: "card (roots_below eq r) = card (roots_below eq r')" using val by simp
    show "r = r'"
    proof (rule ccontr)
      assume "r \<noteq> r'"
      then consider "r < r'" | "r' < r" by linarith
      then show False
        using card_roots_below_mono[of r r' eq] card_roots_below_mono[of r' r eq] a e
        by cases auto
    qed
  qed
  have sub: "(\<lambda>r. remap ! r) ` ?R \<subseteq> {0..<card ?R}"
  proof
    fix v assume "v \<in> (\<lambda>r. remap ! r) ` ?R"
    then obtain r where "r < length eq" "v = remap ! r" by auto
    with len have "v \<in> set remap" by simp
    with set show "v \<in> {0..<card ?R}" by simp
  qed
  have c: "card ((\<lambda>r. remap ! r) ` ?R) = card {0..<card ?R}"
    using inj by (simp add: card_image)
  have "(\<lambda>r. remap ! r) ` ?R = {0..<card ?R}"
    by (rule card_subset_eq[OF finite_atLeastLessThan sub c])
  with inj have "bij_betw (\<lambda>r. remap ! r) ?R {0..<card ?R}" by (simp add: bij_betw_def)
  with t st len root show ?thesis by blast
qed

text \<open>
  C7: after any number of steps of the raster pass, and so at its end, following the
  equivalence table from any label by repeated lookup ends at a root whose own entry
  points to itself (the lookup loop returns, so there is no cycle other than a self-loop),
  and the compaction pass maps the roots one-to-one onto the dense label space
  \<open>0, \<dots>, number of roots - 1\<close>, giving every label the new label of its root.
\<close>

theorem equiv_table_roots:
  "\<exists>st. raster_pass im con8 (take k (label_steps (shape_y im) (shape_x im))) = Inr st \<and>
     (\<forall>l < length (equiv st). \<exists>r. find_root (equiv st) l = Some (Inr r) \<and> r \<le> l \<and> equiv st ! r = r) \<and>
     (\<exists>remap nc. tidy (equiv st) = Some (Inr (remap, nc)) \<and> length remap = length (equiv st) \<and>
        bij_betw (\<lambda>r. remap ! r) {r. r < length (equiv st) \<and> equiv st ! r = r}
                 {0..<card {r. r < length (equiv st) \<and> equiv st ! r = r}} \<and>
        (\<forall>l < length (equiv st). \<forall>r. find_root (equiv st) l = Some (Inr r) \<longrightarrow> remap ! l = remap ! r))"
proof -
  have "\<exists>st'. fold_err (label_step im con8) (label_init im)
               (take k (label_steps (shape_y im) (shape_x im))) = Inr st' \<and> label_inv st'"
    by (rule raster_inv[OF label_init_inv])
  then obtain st where r: "raster_pass im con8 (take k (label_steps (shape_y im) (shape_x im))) = Inr st"
    and inv: "label_inv st" by (auto simp: raster_pass_def)
  from inv have ok: "equiv_ok (equiv st)" by (simp add: label_inv_def)
  from find_root_ok[OF ok] tidy_dense[OF ok] r show ?thesis by blast
qed


lemma raster_pass_fork:
  "(case raster_pass im_fork False (take 11 (label_steps (shape_y im_fork) (shape_x im_fork))) of
      Inl e \<Rightarrow> False
    | Inr st \<Rightarrow> equiv st = [0, 1, 2, 1])"
  by code_simp

theorem equiv_table_roots_witness:
  "\<exists>st. raster_pass im_fork False (take 11 (label_steps (shape_y im_fork) (shape_x im_fork))) = Inr st \<and>
     equiv st = [0, 1, 2, 1] \<and>
     (\<exists>r. find_root (equiv st) 3 = Some (Inr r) \<and> r \<le> 3 \<and> equiv st ! r = r) \<and>
     (\<exists>remap nc. tidy (equiv st) = Some (Inr (remap, nc)) \<and> length remap = length (equiv st))"
proof -
  from equiv_table_roots[of im_fork False 11] obtain st where
    r: "raster_pass im_fork False (take 11 (label_steps (shape_y im_fork) (shape_x im_fork))) = Inr st"
    and c: "\<forall>l < length (equiv st). \<exists>r. find_root (equiv st) l = Some (Inr r) \<and> r \<le> l \<and> equiv st ! r = r"
    and t: "\<exists>remap nc. tidy (equiv st) = Some (Inr (remap, nc)) \<and> length remap = length (equiv st)"
    by blast
  from raster_pass_fork r have e: "equiv st = [0, 1, 2, 1]" by simp
  then have "3 < length (equiv st)" by simp
  with c have "\<exists>r. find_root (equiv st) 3 = Some (Inr r) \<and> r \<le> 3 \<and> equiv st ! r = r" by blast
  with r e t show ?thesis by blast
qed

subsection \<open>The region count\<close>

lemma label_regions_slow_two_regions:
  "(case label_regions_slow im_two_regions True of
      Some (Inr res) \<Rightarrow> snd res = 1 \<and> pix (fst res) 0 0 0 = 0 \<and> pix (fst res) 0 1 0 = 1
    | _ \<Rightarrow> False)"
  by code_simp

lemma label_regions_slow_fork:
  "(case label_regions_slow im_fork False of
      Some (Inr res) \<Rightarrow> snd res = 2 \<and> pix (fst res) 0 0 0 = 0 \<and> pix (fst res) 0 1 0 = 1 \<and>
                        pix (fst res) 0 2 0 = 2
    | _ \<Rightarrow> False)"
  by code_simp

text \<open>
  C3: \<^verbatim>\<open>label_regions_slow\<close> returns the label buffer with the number \<open>N\<close> of regions, the
  labels being \<open>0, \<dots>, N - 1\<close>.  The code returns \<^verbatim>\<open>max (lab)\<close>, the largest label: for a
  row of two different pixels the labels are 0 and 1 and the returned number is 1; for
  the 3 by 4 buffer with three regions the labels 0, 1 and 2 occur and the returned
  number is 2.
\<close>

theorem label_regions_slow_returns_max:
  "(\<exists>l. label_regions_slow im_two_regions True = Some (Inr (l, 1)) \<and>
        pix l 0 0 0 = 0 \<and> pix l 0 1 0 = 1) \<and>
   (\<exists>l. label_regions_slow im_fork False = Some (Inr (l, 2)) \<and>
        pix l 0 0 0 = 0 \<and> pix l 0 1 0 = 1 \<and> pix l 0 2 0 = 2)"
  using label_regions_slow_two_regions label_regions_slow_fork
  by (auto split: option.splits sum.splits)

subsection \<open>Unguarded writes of the fast circle\<close>

text \<open>
  C1: coordinates outside the buffer are silently skipped by every drawing primitive.
  \<^verbatim>\<open>draw_circle_fast\<close> does not do so: on a 5 by 5 buffer, centre (1,1) and radius 5, its
  first assignment \<^verbatim>\<open>im[yc+y, xc+x] = v\<close> addresses row 6 and raises \<^verbatim>\<open>IndexError\<close>;
  with radius 2 the row -1 wraps around to row 4, so the pixel (4,1), three rows below the
  centre, is written instead of skipped.
\<close>

theorem draw_circle_fast_out_of_bounds:
  "draw_circle_fast store_exact im_zero5 1 1 5 1 None = Some (Inl IndexError) \<and>
   (\<exists>im'. draw_circle_fast store_exact im_zero5 1 1 2 1 None = Some (Inr im') \<and>
          pix im_zero5 4 1 0 = 0 \<and> pix im' 4 1 0 = 1)"
  by (simp add: draw_circle_fast_def circle_octants_def np_set_pixel_def np_index_def
      im_zero5_def set_pixel_def store_exact_def)

subsection \<open>Thresholding a peak list\<close>

text \<open>
  C10: \<^verbatim>\<open>high_peaks\<close> applied to an empty peak list fails with an error (the
  \<^verbatim>\<open>IndexError\<close> of reading \<^verbatim>\<open>peaks[0]\<close>) for every factor; it does not return an
  empty list.
\<close>

theorem high_peaks_empty_fails:
  "high_peaks [] factor = Inl IndexError \<and> high_peaks [] factor \<noteq> Inr []"
  by (simp add: high_peaks_def)

end
